theory Spec2Isabelle
  imports Main "HOL-Library.Sublist"
begin

section \<open>Strings and paths\<close>

text \<open>
  Go strings are byte strings, modelled as \<^typ>\<open>string\<close>. \<^verbatim>\<open>strings.ToLower\<close> is
  modelled on the ASCII letters. Go also lowers non-ASCII letters, but every byte of a
  multi-byte UTF-8 sequence is at least 0x80, so the only non-ASCII letters that lower
  to an ASCII byte are the Kelvin sign (to k) and the dotted capital I (to i). The
  patterns \<^verbatim>\<open>.m3u8\<close>, \<^verbatim>\<open>.m3u8?\<close> and \<^verbatim>\<open>.ts\<close> contain neither letter, so the
  tests against them agree with the code on every string. The test of a file name
  against another extension that contains k or i can differ from the code's on a name
  spelt with one of those two letters; nothing proved below rests on that test.
\<close>

definition lowerByte :: "char \<Rightarrow> char" where
  "lowerByte c =
     (case map_of (zip ''ABCDEFGHIJKLMNOPQRSTUVWXYZ'' ''abcdefghijklmnopqrstuvwxyz'') c of
        Some d \<Rightarrow> d
      | None \<Rightarrow> c)"

definition ToLower :: "string \<Rightarrow> string" where
  "ToLower s = map lowerByte s"

text \<open>\<^verbatim>\<open>strings.HasPrefix\<close>, \<^verbatim>\<open>HasSuffix\<close>, \<^verbatim>\<open>Contains\<close>, \<^verbatim>\<open>TrimSuffix\<close>, \<^verbatim>\<open>Join\<close>.\<close>

definition HasPrefix :: "string \<Rightarrow> string \<Rightarrow> bool" where
  "HasPrefix s pre = (length s \<ge> length pre \<and> take (length pre) s = pre)"

definition HasSuffix :: "string \<Rightarrow> string \<Rightarrow> bool" where
  "HasSuffix s suf = (length s \<ge> length suf \<and> drop (length s - length suf) s = suf)"

fun Contains :: "string \<Rightarrow> string \<Rightarrow> bool" where
  "Contains [] sub = (sub = [])"
| "Contains (c # cs) sub = (HasPrefix (c # cs) sub \<or> Contains cs sub)"

definition TrimSuffix :: "string \<Rightarrow> string \<Rightarrow> string" where
  "TrimSuffix s suf = (if HasSuffix s suf then take (length s - length suf) s else s)"

fun JoinStrings :: "string list \<Rightarrow> string \<Rightarrow> string" where
  "JoinStrings [] sep = []"
| "JoinStrings [x] sep = x"
| "JoinStrings (x # y # ys) sep = x @ sep @ JoinStrings (y # ys) sep"

text \<open>The \<^verbatim>\<open>%d\<close> verb of \<^verbatim>\<open>fmt.Sprintf\<close> on a non-negative index.\<close>

fun digitChar :: "nat \<Rightarrow> char" where
  "digitChar n = ''0123456789'' ! (n mod 10)"

fun showNat :: "nat \<Rightarrow> string" where
  "showNat n = (if n < 10 then [digitChar n] else showNat (n div 10) @ [digitChar n])"

text \<open>
  \<^verbatim>\<open>path/filepath\<close> on Unix. \<^verbatim>\<open>Clean\<close> walks the slash-separated elements: empty
  elements and \<^verbatim>\<open>.\<close> are dropped; \<^verbatim>\<open>..\<close> removes the element before it when there is
  one to remove, is dropped at the root of a rooted path, and is kept otherwise. The
  result of an empty walk is \<^verbatim>\<open>/\<close> for a rooted path and \<^verbatim>\<open>.\<close> otherwise.
\<close>

fun splitSep :: "string \<Rightarrow> string list" where
  "splitSep [] = [[]]"
| "splitSep (c # cs) =
     (if c = CHR ''/'' then [] # splitSep cs
      else (case splitSep cs of [] \<Rightarrow> [[c]] | x # xs \<Rightarrow> (c # x) # xs))"

fun cleanLoop :: "bool \<Rightarrow> string list \<Rightarrow> string list \<Rightarrow> string list" where
  "cleanLoop rooted [] out = out"
| "cleanLoop rooted (c # cs) out =
     cleanLoop rooted cs
       (if c = [] \<or> c = ''.'' then out
        else if c = ''..'' then
          (if out \<noteq> [] \<and> last out \<noteq> ''..'' then butlast out
           else if rooted then out
           else out @ [''..''])
        else out @ [c])"

definition Clean :: "string \<Rightarrow> string" where
  "Clean p =
     (if p = [] then ''.''
      else
        (let rooted = HasPrefix p ''/'';
             out = cleanLoop rooted (splitSep p) []
         in if rooted then ''/'' @ JoinStrings out ''/''
            else if out = [] then ''.''
            else JoinStrings out ''/''))"

text \<open>\<^verbatim>\<open>filepath.Join\<close> of two elements: empty elements are ignored, the rest is cleaned.\<close>

definition Join :: "string \<Rightarrow> string \<Rightarrow> string" where
  "Join dir name =
     (if dir \<noteq> [] then Clean (dir @ ''/'' @ name)
      else if name \<noteq> [] then Clean name
      else [])"

text \<open>
  \<^verbatim>\<open>filepath.Ext\<close> scans from the end for a dot and stops at a slash;
  \<^verbatim>\<open>filepath.Base\<close> strips trailing slashes and keeps the last element.
\<close>

fun extScan :: "string \<Rightarrow> string \<Rightarrow> string" where
  "extScan [] acc = []"
| "extScan (c # cs) acc =
     (if c = CHR ''/'' then []
      else if c = CHR ''.'' then c # acc
      else extScan cs (c # acc))"

definition filepathExt :: "string \<Rightarrow> string" where
  "filepathExt p = extScan (rev p) []"

definition Base :: "string \<Rightarrow> string" where
  "Base p =
     (if p = [] then ''.''
      else
        (let stripped = dropWhile (\<lambda>c. c = CHR ''/'') (rev p);
             element = rev (takeWhile (\<lambda>c. c \<noteq> CHR ''/'') stripped)
         in if element = [] then ''/'' else element))"

text \<open>
  \<^verbatim>\<open>filepath.Abs\<close>: an absolute path is cleaned; a relative one is joined to the working
  directory, and the call fails when the working directory cannot be read (\<open>None\<close>).
\<close>

definition Abs :: "string option \<Rightarrow> string \<Rightarrow> string option" where
  "Abs cwd p =
     (if HasPrefix p ''/'' then Some (Clean p)
      else (case cwd of None \<Rightarrow> None | Some wd \<Rightarrow> Some (Join wd p)))"

section \<open>Data model\<close>

text \<open>
  Modelled from the spec: the media descriptor types \<^verbatim>\<open>VideoFormat\<close>, \<^verbatim>\<open>VideoMedia\<close>,
  \<^verbatim>\<open>AudioMedia\<close>, \<^verbatim>\<open>ImageMedia\<close> and the image entries are declared in the extractor
  package, outside \<^verbatim>\<open>server.go\<close>. The records keep the fields the specification lists,
  under the names \<^verbatim>\<open>server.go\<close> reads them by. A header map is only tested for
  emptiness and copied onto the request, so an association list stands for it.
  \<^verbatim>\<open>Bitrate\<close> is only compared, never added, so \<^typ>\<open>int\<close> loses nothing.
\<close>

type_synonym headers = "(string \<times> string) list"

record VideoFormat =
  URL :: string
  AudioURL :: string
  Headers :: headers
  Bitrate :: int
  Ext :: string

record Image =
  imgURL :: string
  imgExt :: string

text \<open>
  The constructors carry title and ID, then the formats, or the URL and extension, or
  the images. \<open>OtherMedia\<close> is the \<^verbatim>\<open>default\<close> arm of the type switch.
\<close>

datatype Media =
    VideoMedia string string "VideoFormat list"
  | AudioMedia string string string string
  | ImageMedia string string "Image list"
  | OtherMedia

text \<open>
  Modelled from the spec: the \<^verbatim>\<open>Job\<close> type is declared with the job queue, outside
  \<^verbatim>\<open>server.go\<close>. The record keeps the fields \<^verbatim>\<open>updateJobFilename\<close> touches: the
  opaque ID, the source URL and the resolved filename.
\<close>

record Job =
  jobID :: string
  jobURL :: string
  Filename :: string

datatype ctx_error = Canceled | DeadlineExceeded

datatype error =
    RequestCreateFailed string
  | RequestFailed string
  | BadStatus int
  | CreateFailed string
  | WriteFailed string
  | ReadFailed string
  | ContextError ctx_error
  | VideoStreamFailed error
  | AudioStreamFailed error
  | ImageFailed nat error
  | ExtractionFailed string
  | NoVideoFormats
  | NoImages
  | UnsupportedMedia
  | HLSFailed string

text \<open>A call that never returns is \<open>Blocked\<close>.\<close>

datatype 'a outcome = Blocked | Returned 'a

section \<open>selectBestFormat\<close>

text \<open>
  First loop of \<^verbatim>\<open>selectBestFormat\<close>: \<open>bestWithAudio\<close> starts as nil and is replaced
  by a format with a paired audio URL when it is nil or has a strictly lower bitrate.
\<close>

fun bestWithAudioLoop :: "VideoFormat list \<Rightarrow> VideoFormat option \<Rightarrow> VideoFormat option" where
  "bestWithAudioLoop [] best = best"
| "bestWithAudioLoop (f # fs) best =
     bestWithAudioLoop fs
       (if AudioURL f \<noteq> [] then
          (case best of
             None \<Rightarrow> Some f
           | Some b \<Rightarrow> if Bitrate f > Bitrate b then Some f else best)
        else best)"

text \<open>Second loop: \<open>best\<close> starts as the first format and moves on a strictly higher bitrate.\<close>

fun bestLoop :: "VideoFormat list \<Rightarrow> VideoFormat \<Rightarrow> VideoFormat" where
  "bestLoop [] best = best"
| "bestLoop (f # fs) best = bestLoop fs (if Bitrate f > Bitrate best then f else best)"

text \<open>The nil result for an empty slice is \<open>None\<close>.\<close>

definition selectBestFormat :: "VideoFormat list \<Rightarrow> VideoFormat option" where
  "selectBestFormat formats =
     (case formats of
        [] \<Rightarrow> None
      | f0 # _ \<Rightarrow>
          (case bestWithAudioLoop formats None of
             Some b \<Rightarrow> Some b
           | None \<Rightarrow> Some (bestLoop formats f0)))"

definition hasAudio :: "VideoFormat \<Rightarrow> bool" where
  "hasAudio f = (AudioURL f \<noteq> [])"

definition specExampleFormats :: "VideoFormat list" where
  "specExampleFormats =
     [\<lparr>URL = ''v500'', AudioURL = '''', Headers = [], Bitrate = 500, Ext = ''mp4''\<rparr>,
      \<lparr>URL = ''v300'', AudioURL = ''X'', Headers = [], Bitrate = 300, Ext = ''mp4''\<rparr>,
      \<lparr>URL = ''v900'', AudioURL = '''', Headers = [], Bitrate = 900, Ext = ''mp4''\<rparr>]"

section \<open>downloadFile: the Plain Downloader\<close>

text \<open>
  Everything \<^verbatim>\<open>downloadFile\<close> gets from outside is an input of the model: whether
  building the request and sending it fail, the response's status code and declared
  content length, whether creating the file fails, what the \<open>i\<close>-th \<^verbatim>\<open>Body.Read\<close>
  returns (a byte count and nil, \<^verbatim>\<open>io.EOF\<close> or another error), whether the write in
  iteration \<open>i\<close> fails, and whether \<^verbatim>\<open>ctx.Done()\<close> is closed when iteration \<open>i\<close>
  polls it, with the value \<^verbatim>\<open>ctx.Err()\<close> then has.
\<close>

datatype read_err = NoErr | EOF | ReadErr string

record http_env =
  newRequestErr :: "string option"
  doErr :: "string option"
  StatusCode :: int
  declaredLength :: "int option"
  createErr :: "string option"
  bodyRead :: "nat \<Rightarrow> nat \<times> read_err"
  fileWriteErr :: "nat \<Rightarrow> string option"
  ctxDone :: "nat \<Rightarrow> bool"
  ctxErr :: ctx_error

text \<open>
  \<^verbatim>\<open>resp.ContentLength\<close> of \<^verbatim>\<open>net/http\<close>: the declared length, and \<open>-1\<close> when the
  length is unknown.
\<close>

definition ContentLength :: "http_env \<Rightarrow> int" where
  "ContentLength env = (case declaredLength env of Some n \<Rightarrow> n | None \<Rightarrow> - 1)"

text \<open>
  The loop's variables: \<open>downloaded\<close>, the number of reads begun, the sizes of the chunks
  written to the file, and the arguments of the progress calls made. \<open>downloaded\<close> is an
  \<^verbatim>\<open>int64\<close> that grows by at most 32768 per read; it is modelled unbounded.
\<close>

record loop_state =
  downloaded :: int
  reads :: nat
  chunks :: "nat list"
  reported :: "(int \<times> int) list"

text \<open>The \<^verbatim>\<open>if n > 0\<close> block: write, add, report.\<close>

definition writeChunk ::
  "http_env \<Rightarrow> bool \<Rightarrow> int \<Rightarrow> loop_state \<Rightarrow> nat \<Rightarrow> nat \<Rightarrow> error + loop_state" where
  "writeChunk env hasProgressFn totalLen st i n =
     (if n > 0 then
        (case fileWriteErr env i of
           Some m \<Rightarrow> Inl (WriteFailed m)
         | None \<Rightarrow>
             (let d = downloaded st + int n
              in Inr (st\<lparr>downloaded := d,
                        chunks := chunks st @ [n],
                        reported := (if hasProgressFn then reported st @ [(d, totalLen)]
                                     else reported st)\<rparr>)))
      else Inr st)"

text \<open>
  The \<^verbatim>\<open>for\<close> loop. It has no bound of its own: a body that keeps returning data
  without an error keeps it running, so the result is optional.
\<close>

partial_function (option) readLoop ::
  "http_env \<Rightarrow> bool \<Rightarrow> int \<Rightarrow> loop_state \<Rightarrow> (error option \<times> loop_state) option" where
  "readLoop env hasProgressFn totalLen st =
     (if ctxDone env (reads st) then Some (Some (ContextError (ctxErr env)), st)
      else
        (let i = reads st;
             st1 = st\<lparr>reads := i + 1\<rparr>
         in case writeChunk env hasProgressFn totalLen st1 i (fst (bodyRead env i)) of
              Inl e \<Rightarrow> Some (Some e, st1)
            | Inr st2 \<Rightarrow>
                (case snd (bodyRead env i) of
                   EOF \<Rightarrow> Some (None, st2)
                 | ReadErr m \<Rightarrow> Some (Some (ReadFailed m), st2)
                 | NoErr \<Rightarrow> readLoop env hasProgressFn totalLen st2)))"

declare readLoop.simps [code]

record dl_result =
  derr :: "error option"
  fileCreated :: bool
  chunksWritten :: "nat list"
  progressCalls :: "(int \<times> int) list"
  readsBegun :: nat

definition failedBeforeBody :: "error \<Rightarrow> dl_result" where
  "failedBeforeBody e =
     \<lparr>derr = Some e, fileCreated = False, chunksWritten = [], progressCalls = [],
      readsBegun = 0\<rparr>"

text \<open>
  \<^verbatim>\<open>downloadFile\<close>; \<open>hasProgressFn\<close> says that \<^verbatim>\<open>progressFn\<close> is not nil. The URL, the
  output path and the request headers do not influence the control flow and are kept by
  the callers' records of the call. \<open>None\<close> means the call never returns.
\<close>

definition downloadFile :: "http_env \<Rightarrow> bool \<Rightarrow> dl_result option" where
  "downloadFile env hasProgressFn =
     (case newRequestErr env of
        Some m \<Rightarrow> Some (failedBeforeBody (RequestCreateFailed m))
      | None \<Rightarrow>
     (case doErr env of
        Some m \<Rightarrow> Some (failedBeforeBody (RequestFailed m))
      | None \<Rightarrow>
     (if StatusCode env \<noteq> 200 then Some (failedBeforeBody (BadStatus (StatusCode env)))
      else
     (let totalLen = ContentLength env in
      case createErr env of
        Some m \<Rightarrow> Some (failedBeforeBody (CreateFailed m))
      | None \<Rightarrow>
          map_option
            (\<lambda>(e, st). \<lparr>derr = e, fileCreated = True, chunksWritten = chunks st,
                        progressCalls = reported st, readsBegun = reads st\<rparr>)
            (readLoop env hasProgressFn totalLen
               \<lparr>downloaded = 0, reads = 0, chunks = [], reported = []\<rparr>)))))"

text \<open>
  The files a call leaves on disk: its output file once \<^verbatim>\<open>os.Create\<close> has succeeded.
  A call that never returns is inside the loop, hence past \<^verbatim>\<open>os.Create\<close>.
\<close>

definition createdBy :: "dl_result option \<Rightarrow> string \<Rightarrow> string list" where
  "createdBy res path =
     (case res of Some r \<Rightarrow> (if fileCreated r then [path] else []) | None \<Rightarrow> [path])"

text \<open>The iterations before \<open>k\<close> neither see a cancellation nor end the loop.\<close>

definition keepsGoing :: "http_env \<Rightarrow> nat \<Rightarrow> bool" where
  "keepsGoing env k =
     (\<forall>j \<in> set [0..<k]. \<not> ctxDone env j \<and> snd (bodyRead env j) = NoErr
               \<and> (fst (bodyRead env j) > 0 \<longrightarrow> fileWriteErr env j = None))"

text \<open>The request is sent, answered with 200, and the output file is created.\<close>

definition reachesBody :: "http_env \<Rightarrow> bool" where
  "reachesBody env =
     (newRequestErr env = None \<and> doErr env = None \<and> StatusCode env = 200
      \<and> createErr env = None)"

text \<open>The progress calls expected for a list of written chunk sizes.\<close>

definition runningTotals :: "nat list \<Rightarrow> int \<Rightarrow> (int \<times> int) list" where
  "runningTotals sizes totalLen =
     map (\<lambda>k. (int (sum_list (take (Suc k) sizes)), totalLen)) [0..<length sizes]"

text \<open>Environments for the examples: a two-chunk body served with status 200.\<close>

definition twoChunks :: http_env where
  "twoChunks =
     \<lparr>newRequestErr = None, doErr = None, StatusCode = 200, declaredLength = Some 12,
      createErr = None,
      bodyRead = (\<lambda>i. if i = 0 then (5, NoErr) else if i = 1 then (7, NoErr) else (0, EOF)),
      fileWriteErr = (\<lambda>i. None), ctxDone = (\<lambda>i. False), ctxErr = Canceled\<rparr>"

section \<open>downloadVideoWithAudio: the Dual-Stream Merger\<close>

text \<open>
  The functions of the extractor and downloader packages that \<^verbatim>\<open>server.go\<close> calls are
  declared outside it; they are parameters of the model, next to the environment each
  download meets: the filename sanitizer, the environment of the job's \<open>k\<close>-th
  \<^verbatim>\<open>downloadFile\<close> call, the HLS downloader (an error or the final path), the probe
  for the remux tool and the merge (an error or the merged path).
\<close>

record world =
  SanitizeFilename :: "string \<Rightarrow> string"
  httpFor :: "nat \<Rightarrow> http_env"
  DownloadHLSWithProgress :: "string \<Rightarrow> string \<Rightarrow> headers \<Rightarrow> string + string"
  FFmpegAvailable :: bool
  MergeVideoAudioKeepOriginals :: "string \<Rightarrow> string \<Rightarrow> string + string"

datatype call =
    DualStreamCall VideoFormat string
  | HLSCall string string headers
  | PlainCall string string headers bool

datatype log_line =
    MergeFailedWarning string string string
  | FFmpegNotFound string string

record dual_result =
  dualReturned :: "error option outcome"
  streamCalls :: "call list"
  dualCreated :: "string list"
  mergeCalls :: "(string \<times> string) list"
  dualLog :: "log_line list"

definition audioExtFor :: "VideoFormat \<Rightarrow> string" where
  "audioExtFor format = (if Ext format = ''webm'' then ''opus'' else ''m4a'')"

definition audioFileFor :: "VideoFormat \<Rightarrow> string \<Rightarrow> string" where
  "audioFileFor format outputPath =
     (let ext = filepathExt outputPath;
          baseName = TrimSuffix outputPath ext
      in baseName @ ''.'' @ audioExtFor format)"

text \<open>
  The two downloads run in their own goroutines with a non-nil progress callback each;
  the video stream is the job's call 0 and the audio stream its call 1. After
  \<^verbatim>\<open>wg.Wait()\<close> only their two errors are read, so the interleaving of the two runs
  is not modelled, nor is the aggregated progress they report on the way. The wait
  never ends when one of the two downloads never returns.
\<close>

definition downloadVideoWithAudio :: "world \<Rightarrow> VideoFormat \<Rightarrow> string \<Rightarrow> dual_result" where
  "downloadVideoWithAudio w format outputPath =
     (let videoFile = outputPath;
          audioFile = audioFileFor format outputPath;
          video = downloadFile (httpFor w 0) True;
          audio = downloadFile (httpFor w 1) True;
          started = [PlainCall (URL format) videoFile (Headers format) True,
                     PlainCall (AudioURL format) audioFile (Headers format) True];
          files = createdBy video videoFile @ createdBy audio audioFile;
          stopped = (\<lambda>r. \<lparr>dualReturned = r, streamCalls = started, dualCreated = files,
                           mergeCalls = [], dualLog = []\<rparr>)
      in case (video, audio) of
           (Some v, Some a) \<Rightarrow>
             (case derr v of
                Some e \<Rightarrow> stopped (Returned (Some (VideoStreamFailed e)))
              | None \<Rightarrow>
             (case derr a of
                Some e \<Rightarrow> stopped (Returned (Some (AudioStreamFailed e)))
              | None \<Rightarrow>
                  (if FFmpegAvailable w then
                     \<lparr>dualReturned = Returned None, streamCalls = started,
                      dualCreated = files, mergeCalls = [(videoFile, audioFile)],
                      dualLog =
                        (case MergeVideoAudioKeepOriginals w videoFile audioFile of
                           Inl m \<Rightarrow> [MergeFailedWarning m videoFile audioFile]
                         | Inr merged \<Rightarrow> [])\<rparr>
                   else
                     \<lparr>dualReturned = Returned None, streamCalls = started,
                      dualCreated = files, mergeCalls = [],
                      dualLog = [FFmpegNotFound videoFile audioFile]\<rparr>)))
         | _ \<Rightarrow> stopped Blocked)"

section \<open>downloadWithExtractor: the Download Engine\<close>

text \<open>
  \<^verbatim>\<open>updateJobFilename\<close> walks the job listing and sets the filename of the first job
  with the given URL.
\<close>

fun updateJobFilename :: "string \<Rightarrow> string \<Rightarrow> Job list \<Rightarrow> Job list" where
  "updateJobFilename url filename [] = []"
| "updateJobFilename url filename (job # rest) =
     (if jobURL job = url then job\<lparr>Filename := filename\<rparr> # rest
      else job # updateJobFilename url filename rest)"

text \<open>
  What a run of the engine leaves behind: its return value, the job table, the calls it
  made to the three downloaders, the files created by Plain Downloads and the merges
  attempted.
\<close>

record job_result =
  returned :: "error option outcome"
  jobTable :: "Job list"
  calls :: "call list"
  created :: "string list"
  merges :: "(string \<times> string) list"

text \<open>
  Output path of a video or audio descriptor. The two arms of the type switch resolve
  it with the same statements, on \<open>ext\<close> for a video and on \<^verbatim>\<open>m.Ext\<close> for an audio.
\<close>

definition outputPathFor ::
  "world \<Rightarrow> string \<Rightarrow> string \<Rightarrow> string \<Rightarrow> string \<Rightarrow> string \<Rightarrow> string" where
  "outputPathFor w outputDir filename title mediaID ext =
     (if filename \<noteq> [] then
        (let sanitized = SanitizeFilename w filename;
             sanitized' = (if \<not> HasSuffix (ToLower sanitized) (''.'' @ ext)
                           then sanitized @ ''.'' @ ext else sanitized)
         in Join outputDir sanitized')
      else
        (let title' = SanitizeFilename w title
         in if title' \<noteq> [] then Join outputDir (title' @ ''.'' @ ext)
            else Join outputDir (mediaID @ ''.'' @ ext)))"

text \<open>The test that guards the HLS branch.\<close>

definition isManifestURL :: "string \<Rightarrow> bool" where
  "isManifestURL downloadURL =
     (HasSuffix (ToLower downloadURL) ''.m3u8'' \<or> Contains (ToLower downloadURL) ''.m3u8?'')"

text \<open>The statements after the type switch, shared by video and audio descriptors.\<close>

definition fetchResolved ::
  "world \<Rightarrow> Job list \<Rightarrow> string \<Rightarrow> string \<Rightarrow> string \<Rightarrow> headers \<Rightarrow> bool \<Rightarrow> job_result" where
  "fetchResolved w jobs url downloadURL outputPath hdrs hasProgressFn =
     (if isManifestURL downloadURL then
        (case DownloadHLSWithProgress w downloadURL outputPath hdrs of
           Inl m \<Rightarrow>
             \<lparr>returned = Returned (Some (HLSFailed m)), jobTable = jobs,
              calls = [HLSCall downloadURL outputPath hdrs], created = [], merges = []\<rparr>
         | Inr finalPath \<Rightarrow>
             \<lparr>returned = Returned None,
              jobTable = (if finalPath \<noteq> outputPath then updateJobFilename url finalPath jobs
                          else jobs),
              calls = [HLSCall downloadURL outputPath hdrs], created = [], merges = []\<rparr>)
      else
        (let res = downloadFile (httpFor w 0) hasProgressFn
         in \<lparr>returned = (case res of None \<Rightarrow> Blocked | Some r \<Rightarrow> Returned (derr r)),
             jobTable = jobs,
             calls = [PlainCall downloadURL outputPath hdrs hasProgressFn],
             created = createdBy res outputPath, merges = []\<rparr>))"

text \<open>The image arm: the path of image \<open>i\<close> (0-based) among \<open>count\<close> images.\<close>

definition imagePath ::
  "string \<Rightarrow> string \<Rightarrow> string \<Rightarrow> nat \<Rightarrow> nat \<Rightarrow> Image \<Rightarrow> string" where
  "imagePath outputDir title mediaID count i img =
     (if count = 1 then
        (if title \<noteq> [] then Join outputDir (title @ ''.'' @ imgExt img)
         else Join outputDir (mediaID @ ''.'' @ imgExt img))
      else
        (if title \<noteq> [] then
           Join outputDir (title @ ''_'' @ showNat (i + 1) @ ''.'' @ imgExt img)
         else Join outputDir (mediaID @ ''_'' @ showNat (i + 1) @ ''.'' @ imgExt img)))"

text \<open>
  The loop over the images, from index \<open>i\<close> on, with the paths, calls and files so far.
  Image \<open>i\<close> is fetched by the job's call \<open>i\<close>, with nil headers and a nil callback.
\<close>

fun imagesLoop ::
  "world \<Rightarrow> Job list \<Rightarrow> string \<Rightarrow> string \<Rightarrow> string \<Rightarrow> string \<Rightarrow> nat \<Rightarrow> nat \<Rightarrow> Image list
     \<Rightarrow> string list \<Rightarrow> call list \<Rightarrow> string list \<Rightarrow> job_result" where
  "imagesLoop w jobs url outputDir title mediaID count i [] filenames cs files =
     \<lparr>returned = Returned None,
      jobTable = updateJobFilename url (JoinStrings filenames '', '') jobs,
      calls = cs, created = files, merges = []\<rparr>"
| "imagesLoop w jobs url outputDir title mediaID count i (img # rest) filenames cs files =
     (let imgPath = imagePath outputDir title mediaID count i img;
          filenames' = filenames @ [imgPath];
          res = downloadFile (httpFor w i) False;
          cs' = cs @ [PlainCall (imgURL img) imgPath [] False];
          files' = files @ createdBy res imgPath
      in case res of
           None \<Rightarrow>
             \<lparr>returned = Blocked, jobTable = jobs, calls = cs', created = files',
              merges = []\<rparr>
         | Some r \<Rightarrow>
             (case derr r of
                Some e \<Rightarrow>
                  \<lparr>returned = Returned (Some (ImageFailed (i + 1) e)), jobTable = jobs,
                   calls = cs', created = files', merges = []\<rparr>
              | None \<Rightarrow>
                  imagesLoop w jobs url outputDir title mediaID count (i + 1) rest
                    filenames' cs' files'))"

definition failJob :: "Job list \<Rightarrow> error \<Rightarrow> job_result" where
  "failJob jobs e =
     \<lparr>returned = Returned (Some e), jobTable = jobs, calls = [], created = [], merges = []\<rparr>"

text \<open>
  \<^verbatim>\<open>downloadWithExtractor\<close>, from the result of \<^verbatim>\<open>ext.Extract(url)\<close> on (an error text
  or a media descriptor); choosing the extractor is left to the extractor package. The
  source dereferences the result of \<^verbatim>\<open>selectBestFormat\<close> without a nil test; it is nil
  for the empty list only, which the length test before it has excluded, so the \<open>None\<close>
  arm of the model is never taken.
\<close>

definition downloadWithExtractor ::
  "world \<Rightarrow> Job list \<Rightarrow> string \<Rightarrow> string + Media \<Rightarrow> string \<Rightarrow> string \<Rightarrow> bool
     \<Rightarrow> job_result" where
  "downloadWithExtractor w jobs outputDir extracted url filename hasProgressFn =
     (case extracted of
        Inl m \<Rightarrow> failJob jobs (ExtractionFailed m)
      | Inr (VideoMedia title mediaID formats) \<Rightarrow>
          (if formats = [] then failJob jobs NoVideoFormats
           else
             (case selectBestFormat formats of
                None \<Rightarrow> failJob jobs NoVideoFormats
              | Some format \<Rightarrow>
                  (let ext = (if Ext format = ''m3u8'' then ''ts'' else Ext format);
                       outputPath = outputPathFor w outputDir filename title mediaID ext;
                       jobs' = updateJobFilename url outputPath jobs
                   in if AudioURL format \<noteq> [] then
                        (let d = downloadVideoWithAudio w format outputPath
                         in \<lparr>returned = dualReturned d, jobTable = jobs',
                             calls = [DualStreamCall format outputPath],
                             created = dualCreated d, merges = mergeCalls d\<rparr>)
                      else fetchResolved w jobs' url (URL format) outputPath (Headers format)
                             hasProgressFn)))
      | Inr (AudioMedia title mediaID audioURL ext) \<Rightarrow>
          (let outputPath = outputPathFor w outputDir filename title mediaID ext;
               jobs' = updateJobFilename url outputPath jobs
           in fetchResolved w jobs' url audioURL outputPath [] hasProgressFn)
      | Inr (ImageMedia title mediaID images) \<Rightarrow>
          (if images = [] then failJob jobs NoImages
           else imagesLoop w jobs url outputDir (SanitizeFilename w title) mediaID
                  (length images) 0 images [] [] [])
      | Inr OtherMedia \<Rightarrow> failJob jobs UnsupportedMedia)"

section \<open>handleFileDownload\<close>

datatype stat_result = StatOK | StatNotExist | StatOtherError

datatype response =
    BadRequest string
  | Forbidden string
  | NotFound string
  | ServeFile string string

text \<open>
  The handler, from the \<^verbatim>\<open>path\<close> query parameter, the working directory (\<open>None\<close> when
  it cannot be read) and the answer of \<^verbatim>\<open>os.Stat\<close>. The error of the second
  \<^verbatim>\<open>filepath.Abs\<close> is discarded, which leaves the empty string. \<open>ServeFile\<close> carries
  the path handed to \<^verbatim>\<open>c.File\<close> and the name put in the Content-Disposition header.
\<close>

definition handleFileDownload ::
  "string option \<Rightarrow> (string \<Rightarrow> stat_result) \<Rightarrow> string \<Rightarrow> string \<Rightarrow> response" where
  "handleFileDownload cwd stat outputDir filePath =
     (if filePath = [] then BadRequest ''path parameter is required''
      else
        (case Abs cwd filePath of
           None \<Rightarrow> BadRequest ''invalid path''
         | Some absPath \<Rightarrow>
             (let absOutputDir = (case Abs cwd outputDir of None \<Rightarrow> [] | Some d \<Rightarrow> d)
              in if \<not> HasPrefix absPath absOutputDir then
                   Forbidden ''access denied: file outside output directory''
                 else if stat absPath = StatNotExist then NotFound ''file not found''
                 else ServeFile absPath (Base absPath))))"

section \<open>Example inputs and proof vocabulary\<close>

text \<open>
  Invariant of the read loop: \<open>downloaded\<close> is the sum of the chunks written, and the
  progress calls are the running totals of those chunks (none without a callback).
\<close>

definition loopInv :: "bool \<Rightarrow> int \<Rightarrow> loop_state \<Rightarrow> bool" where
  "loopInv hp t st = (downloaded st = int (sum_list (chunks st))
      \<and> reported st = (if hp then runningTotals (chunks st) t else []))"

text \<open>Variations of the two-chunk response used in the examples.\<close>

definition partialContent :: http_env where
  "partialContent = twoChunks\<lparr>StatusCode := 206\<rparr>"

definition notFound :: http_env where
  "notFound = twoChunks\<lparr>StatusCode := 404\<rparr>"

definition unknownLength :: http_env where
  "unknownLength = twoChunks\<lparr>declaredLength := None\<rparr>"

definition cancelledAfterFirst :: http_env where
  "cancelledAfterFirst = twoChunks\<lparr>ctxDone := (\<lambda>i. 1 \<le> i)\<rparr>"

text \<open>The sizes of the non-empty reads among the first \<open>k\<close> reads of the body.\<close>

definition chunkSizes :: "http_env \<Rightarrow> nat \<Rightarrow> nat list" where
  "chunkSizes env k = filter (\<lambda>n. 0 < n) (map (\<lambda>i. fst (bodyRead env i)) [0..<k])"

text \<open>The run ended on a failed \<^verbatim>\<open>file.Write\<close>.\<close>

definition writeFailed :: "error option \<Rightarrow> bool" where
  "writeFailed e = (case e of Some (WriteFailed m) \<Rightarrow> True | _ \<Rightarrow> False)"

text \<open>
  Worlds for the examples: an identity sanitizer, every download served the two-chunk
  response, an HLS downloader that keeps the path, and a merge that fails when tried.
\<close>

definition exampleWorld :: world where
  "exampleWorld =
     \<lparr>SanitizeFilename = (\<lambda>s. s), httpFor = (\<lambda>k. twoChunks),
      DownloadHLSWithProgress = (\<lambda>u p h. Inr p), FFmpegAvailable = False,
      MergeVideoAudioKeepOriginals = (\<lambda>v a. Inl ''exit status 1'')\<rparr>"

definition videoFails :: world where
  "videoFails = exampleWorld\<lparr>httpFor := (\<lambda>k. if k = 0 then notFound else twoChunks)\<rparr>"

definition mergeFails :: world where
  "mergeFails = exampleWorld\<lparr>FFmpegAvailable := True\<rparr>"

definition webmFormat :: VideoFormat where
  "webmFormat =
     \<lparr>URL = ''https://cdn.example/v.webm'', AudioURL = ''https://cdn.example/a.webm'',
      Headers = [], Bitrate = 800, Ext = ''webm''\<rparr>"

definition mp4Format :: VideoFormat where
  "mp4Format =
     \<lparr>URL = ''https://cdn.example/v.mp4'', AudioURL = ''https://cdn.example/a.mp4'',
      Headers = [], Bitrate = 800, Ext = ''mp4''\<rparr>"

text \<open>The output path of a video job for the selected format.\<close>

definition videoOutputPath ::
  "world \<Rightarrow> string \<Rightarrow> string \<Rightarrow> string \<Rightarrow> string \<Rightarrow> VideoFormat \<Rightarrow> string" where
  "videoOutputPath w outputDir filename title mediaID format =
     outputPathFor w outputDir filename title mediaID
       (if Ext format = ''m3u8'' then ''ts'' else Ext format)"

definition manifestAudio :: Media where
  "manifestAudio = AudioMedia ''song'' ''a1'' ''https://cdn.example/song.m3u8'' ''mp3''"

definition plainFormats :: "VideoFormat list" where
  "plainFormats =
     [\<lparr>URL = ''https://cdn.example/v.mp4'', AudioURL = '''', Headers = [], Bitrate = 500,
       Ext = ''mp4''\<rparr>]"

definition manifestFormats :: "VideoFormat list" where
  "manifestFormats =
     [\<lparr>URL = ''https://cdn.example/master.M3U8?token=1'', AudioURL = '''', Headers = [],
       Bitrate = 500, Ext = ''m3u8''\<rparr>]"

text \<open>
  The paths and the \<^verbatim>\<open>downloadFile\<close> calls of the image loop for the images from index
  \<open>i\<close> on, and the test that the download of image \<open>i\<close> returns without an error.
\<close>

fun imagePaths :: "string \<Rightarrow> string \<Rightarrow> string \<Rightarrow> nat \<Rightarrow> nat \<Rightarrow> Image list \<Rightarrow> string list" where
  "imagePaths outputDir title mediaID count i [] = []"
| "imagePaths outputDir title mediaID count i (img # rest) =
     imagePath outputDir title mediaID count i img
       # imagePaths outputDir title mediaID count (i + 1) rest"

fun imageCalls :: "string \<Rightarrow> string \<Rightarrow> string \<Rightarrow> nat \<Rightarrow> nat \<Rightarrow> Image list \<Rightarrow> call list" where
  "imageCalls outputDir title mediaID count i [] = []"
| "imageCalls outputDir title mediaID count i (img # rest) =
     PlainCall (imgURL img) (imagePath outputDir title mediaID count i img) [] False
       # imageCalls outputDir title mediaID count (i + 1) rest"

definition imageOK :: "world \<Rightarrow> nat \<Rightarrow> bool" where
  "imageOK w i =
     (case downloadFile (httpFor w i) False of Some r \<Rightarrow> derr r = None | None \<Rightarrow> False)"

definition threeImages :: "Image list" where
  "threeImages =
     [\<lparr>imgURL = ''https://cdn.example/a.jpg'', imgExt = ''jpg''\<rparr>,
      \<lparr>imgURL = ''https://cdn.example/b.png'', imgExt = ''png''\<rparr>,
      \<lparr>imgURL = ''https://cdn.example/c.jpg'', imgExt = ''jpg''\<rparr>]"

definition oneImage :: "Image list" where
  "oneImage = [\<lparr>imgURL = ''https://cdn.example/a.jpg'', imgExt = ''jpg''\<rparr>]"

definition secondFails :: world where
  "secondFails = exampleWorld\<lparr>httpFor := (\<lambda>k. if k = 1 then notFound else twoChunks)\<rparr>"

definition albumJobs :: "Job list" where
  "albumJobs = [\<lparr>jobID = ''j1'', jobURL = ''https://site.example/album'', Filename = ''''\<rparr>]"

text \<open>The output path a call to one of the three downloaders is given.\<close>

fun callPath :: "call \<Rightarrow> string" where
  "callPath (DualStreamCall format path) = path"
| "callPath (HLSCall url path hdrs) = path"
| "callPath (PlainCall url path hdrs hasProgressFn) = path"

text \<open>The value the handler compares the absolute request path against.\<close>

definition absOutputDirOf :: "string option \<Rightarrow> string \<Rightarrow> string" where
  "absOutputDirOf cwd outputDir = (case Abs cwd outputDir of None \<Rightarrow> [] | Some d \<Rightarrow> d)"

definition allPresent :: "string \<Rightarrow> stat_result" where
  "allPresent p = StatOK"

text \<open>
  Iteration \<open>k\<close> ends the loop if it is reached: the poll finds the signal raised, or
  the read returns \<^verbatim>\<open>io.EOF\<close> or an error, or the write of its chunk fails.
\<close>

definition stops :: "http_env \<Rightarrow> nat \<Rightarrow> bool" where
  "stops env k =
     (ctxDone env k \<or> snd (bodyRead env k) \<noteq> NoErr
      \<or> (fst (bodyRead env k) > 0 \<and> fileWriteErr env k \<noteq> None))"

text \<open>What the loop returns when a read comes back with \<^verbatim>\<open>io.EOF\<close> or with an error.\<close>

definition readOutcome :: "read_err \<Rightarrow> error option" where
  "readOutcome e = (case e of ReadErr m \<Rightarrow> Some (ReadFailed m) | _ \<Rightarrow> None)"

text \<open>
  The signal is raised while the read of iteration \<open>j\<close> is in flight, and that read ends
  the loop: the poll of iteration \<open>j\<close> finds the signal not raised, the next poll would
  find it raised, the read returns \<^verbatim>\<open>io.EOF\<close> or an error, and the chunk, if any, is
  written.
\<close>

definition endsInFlight :: "http_env \<Rightarrow> nat \<Rightarrow> bool" where
  "endsInFlight env j =
     (keepsGoing env j \<and> \<not> ctxDone env j \<and> ctxDone env (Suc j)
      \<and> snd (bodyRead env j) \<noteq> NoErr
      \<and> (fst (bodyRead env j) > 0 \<longrightarrow> fileWriteErr env j = None))"

definition resetDuringRead :: http_env where
  "resetDuringRead =
     twoChunks\<lparr>ctxDone := (\<lambda>i. 2 \<le> i),
               bodyRead := (\<lambda>i. if i = 0 then (5, NoErr) else (0, ReadErr ''connection reset by peer''))\<rparr>"

definition cancelledDuringLastRead :: http_env where
  "cancelledDuringLastRead = twoChunks\<lparr>ctxDone := (\<lambda>i. 3 \<le> i)\<rparr>"

text \<open>A job table in which the same URL has been submitted twice, before and after a run.\<close>

definition resubmittedJobs :: "Job list" where
  "resubmittedJobs =
     [\<lparr>jobID = ''j1'', jobURL = ''https://site.example/album'', Filename = ''''\<rparr>,
      \<lparr>jobID = ''j2'', jobURL = ''https://site.example/album'', Filename = ''''\<rparr>]"

definition afterOneRun :: "Job list" where
  "afterOneRun =
     [\<lparr>jobID = ''j1'', jobURL = ''https://site.example/album'',
       Filename = ''/downloads/album.jpg''\<rparr>,
      \<lparr>jobID = ''j2'', jobURL = ''https://site.example/album'', Filename = ''''\<rparr>]"

section \<open>Format selection\<close>

lemma bestWithAudioLoop_None:
  "bestWithAudioLoop fs best = None \<longleftrightarrow> best = None \<and> (\<forall>f \<in> set fs. AudioURL f = [])"
  by (induction fs arbitrary: best) (auto split: option.splits)

lemma bestWithAudioLoop_Some:
  assumes "bestWithAudioLoop fs best = Some r"
    and "\<And>b. best = Some b \<Longrightarrow> AudioURL b \<noteq> []"
  shows "AudioURL r \<noteq> []
       \<and> (Some r = best \<or> r \<in> set fs)
       \<and> (\<forall>b. best = Some b \<longrightarrow> Bitrate b \<le> Bitrate r)
       \<and> (\<forall>f \<in> set fs. AudioURL f \<noteq> [] \<longrightarrow> Bitrate f \<le> Bitrate r)"
  using assms
proof (induction fs arbitrary: best)
  case Nil
  then show ?case by auto
next
  case (Cons f fs)
  let ?best' = "if AudioURL f \<noteq> [] then
          (case best of
             None \<Rightarrow> Some f
           | Some b \<Rightarrow> if Bitrate f > Bitrate b then Some f else best)
        else best"
  have run: "bestWithAudioLoop fs ?best' = Some r"
    using Cons.prems(1) by simp
  have inv: "\<And>b. ?best' = Some b \<Longrightarrow> AudioURL b \<noteq> []"
    using Cons.prems(2) by (auto split: if_splits option.splits)
  from Cons.IH [OF run inv]
  have ih: "AudioURL r \<noteq> []" "Some r = ?best' \<or> r \<in> set fs"
    "\<forall>b. ?best' = Some b \<longrightarrow> Bitrate b \<le> Bitrate r"
    "\<forall>g \<in> set fs. AudioURL g \<noteq> [] \<longrightarrow> Bitrate g \<le> Bitrate r"
    by blast+
  have mem: "Some r = best \<or> r \<in> set (f # fs)"
    using ih(2) by (auto split: if_splits option.splits)
  have old: "\<forall>b. best = Some b \<longrightarrow> Bitrate b \<le> Bitrate r"
    using ih(3) by (auto split: if_splits option.splits)
  have hd: "AudioURL f \<noteq> [] \<longrightarrow> Bitrate f \<le> Bitrate r"
    using ih(3) by (cases best) (auto split: if_splits)
  show ?case using ih(1) ih(4) mem old hd by simp
qed

lemma bestLoop_max:
  "(bestLoop fs best = best \<or> bestLoop fs best \<in> set fs)
   \<and> Bitrate best \<le> Bitrate (bestLoop fs best)
   \<and> (\<forall>f \<in> set fs. Bitrate f \<le> Bitrate (bestLoop fs best))"
proof (induction fs arbitrary: best)
  case Nil
  then show ?case by simp
next
  case (Cons f fs)
  let ?b = "if Bitrate f > Bitrate best then f else best"
  from Cons.IH [of ?b]
  have ih: "bestLoop fs ?b = ?b \<or> bestLoop fs ?b \<in> set fs"
    "Bitrate ?b \<le> Bitrate (bestLoop fs ?b)"
    "\<forall>g \<in> set fs. Bitrate g \<le> Bitrate (bestLoop fs ?b)"
    by blast+
  show ?case using ih by (auto split: if_splits)
qed

text \<open>
  C1. For a non-empty list of formats, \<open>selectBestFormat\<close> returns a member of the list.
  When some format carries a paired audio URL, the result carries one and no format with
  a paired audio URL has a higher bitrate; otherwise no format at all has a higher
  bitrate. On the specification's list (500 without audio, 300 with audio, 900 without
  audio) the result is the 300 format.
\<close>

theorem selectBestFormat_prefers_paired_audio:
  "(formats \<noteq> [] \<longrightarrow>
      (\<exists>r. selectBestFormat formats = Some r \<and> r \<in> set formats
         \<and> (if \<exists>f \<in> set formats. hasAudio f
             then hasAudio r \<and> (\<forall>f \<in> set formats. hasAudio f \<longrightarrow> Bitrate f \<le> Bitrate r)
             else \<forall>f \<in> set formats. Bitrate f \<le> Bitrate r)))
   \<and> selectBestFormat specExampleFormats = Some (specExampleFormats ! 1)"
proof (intro conjI impI)
  assume ne: "formats \<noteq> []"
  then obtain f0 rest where fs: "formats = f0 # rest" by (cases formats) auto
  show "\<exists>r. selectBestFormat formats = Some r \<and> r \<in> set formats
         \<and> (if \<exists>f \<in> set formats. hasAudio f
             then hasAudio r \<and> (\<forall>f \<in> set formats. hasAudio f \<longrightarrow> Bitrate f \<le> Bitrate r)
             else \<forall>f \<in> set formats. Bitrate f \<le> Bitrate r)"
  proof (cases "bestWithAudioLoop formats None")
    case None
    then have noaudio: "\<forall>f \<in> set formats. AudioURL f = []"
      by (simp add: bestWithAudioLoop_None)
    have sel: "selectBestFormat formats = Some (bestLoop formats f0)"
      using None fs by (simp add: selectBestFormat_def)
    have "bestLoop formats f0 = f0 \<or> bestLoop formats f0 \<in> set formats"
      using bestLoop_max [of formats f0] by blast
    then have mem: "bestLoop formats f0 \<in> set formats" using fs by auto
    have top: "\<forall>f \<in> set formats. Bitrate f \<le> Bitrate (bestLoop formats f0)"
      using bestLoop_max [of formats f0] by blast
    show ?thesis using sel mem top noaudio by (simp add: hasAudio_def)
  next
    case (Some r)
    have sel: "selectBestFormat formats = Some r"
      using Some fs by (simp add: selectBestFormat_def)
    have props: "AudioURL r \<noteq> []" "Some r = None \<or> r \<in> set formats"
      "\<forall>f \<in> set formats. AudioURL f \<noteq> [] \<longrightarrow> Bitrate f \<le> Bitrate r"
      using bestWithAudioLoop_Some [OF Some] by simp_all
    show ?thesis using sel props by (auto simp: hasAudio_def)
  qed
next
  show "selectBestFormat specExampleFormats = Some (specExampleFormats ! 1)"
    by (simp add: selectBestFormat_def specExampleFormats_def)
qed

theorem selectBestFormat_prefers_paired_audio_witness:
  "specExampleFormats \<noteq> []
   \<and> selectBestFormat specExampleFormats = Some (specExampleFormats ! 1)
   \<and> (\<exists>f \<in> set specExampleFormats. hasAudio f)
   \<and> hasAudio (specExampleFormats ! 1)
   \<and> Bitrate (specExampleFormats ! 1) = 300"
  using selectBestFormat_prefers_paired_audio [of specExampleFormats]
  by (simp add: specExampleFormats_def hasAudio_def)

section \<open>The read loop\<close>

lemma runningTotals_snoc:
  "runningTotals (cs @ [n]) t = runningTotals cs t @ [(int (sum_list cs) + int n, t)]"
  by (simp add: runningTotals_def)

lemma writeChunk_inv:
  "writeChunk env hp t st i n = Inr st' \<Longrightarrow> loopInv hp t st \<Longrightarrow> loopInv hp t st'"
  by (auto simp: writeChunk_def loopInv_def runningTotals_snoc Let_def split: if_splits option.splits)

lemma writeChunk_reads:
  "writeChunk env hp t st i n = Inr st' \<Longrightarrow> reads st' = reads st"
  by (auto simp: writeChunk_def Let_def split: if_splits option.splits)

lemma writeChunk_Inl:
  "writeChunk env hp t st i n = Inl e \<Longrightarrow> \<exists>m. e = WriteFailed m \<and> n > 0 \<and> fileWriteErr env i = Some m"
  by (auto simp: writeChunk_def Let_def split: if_splits option.splits)

lemma loopInv_reads: "loopInv hp t (st\<lparr>reads := k\<rparr>) = loopInv hp t st"
  by (simp add: loopInv_def)

lemma readLoop_inv:
  assumes "readLoop env hp t st = Some y"
  shows "loopInv hp t st \<longrightarrow> loopInv hp t (snd y)"
proof (rule readLoop.raw_induct
    [where P = "\<lambda>env hp t st y. loopInv hp t st \<longrightarrow> loopInv hp t (snd y)", OF _ assms],
    goal_cases)
  case (1 loop env hp t st y)
  show ?case
  proof (cases "ctxDone env (reads st)")
    case True
    with 1(2) show ?thesis by auto
  next
    case False
    let ?st1 = "st\<lparr>reads := reads st + 1\<rparr>"
    show ?thesis
    proof (cases "writeChunk env hp t ?st1 (reads st) (fst (bodyRead env (reads st)))")
      case (Inl e)
      with False 1(2) show ?thesis by (auto simp: Let_def loopInv_reads)
    next
      case (Inr st2)
      have step: "loopInv hp t st \<longrightarrow> loopInv hp t st2"
        using writeChunk_inv [OF Inr] by (simp add: loopInv_reads)
      show ?thesis
      proof (cases "snd (bodyRead env (reads st))")
        case NoErr
        with False Inr 1(2) have "loop env hp t st2 = Some y" by (simp add: Let_def)
        from 1(1) [OF this] step show ?thesis by blast
      next
        case EOF
        with False Inr 1(2) step show ?thesis by (auto simp: Let_def)
      next
        case (ReadErr m)
        with False Inr 1(2) step show ?thesis by (auto simp: Let_def)
      qed
    qed
  qed
qed

lemma readLoop_no_status:
  assumes "readLoop env hp t st = Some y"
  shows "fst y \<noteq> Some (BadStatus s)"
proof (rule readLoop.raw_induct
    [where P = "\<lambda>env hp t st y. fst y \<noteq> Some (BadStatus s)", OF _ assms], goal_cases)
  case (1 loop env hp t st y)
  show ?case
  proof (cases "ctxDone env (reads st)")
    case True
    with 1(2) show ?thesis by auto
  next
    case False
    let ?st1 = "st\<lparr>reads := reads st + 1\<rparr>"
    show ?thesis
    proof (cases "writeChunk env hp t ?st1 (reads st) (fst (bodyRead env (reads st)))")
      case (Inl e)
      with False 1(2) show ?thesis by (auto simp: Let_def dest: writeChunk_Inl)
    next
      case (Inr st2)
      show ?thesis
      proof (cases "snd (bodyRead env (reads st))")
        case NoErr
        with False Inr 1(2) have "loop env hp t st2 = Some y" by (simp add: Let_def)
        from 1(1) [OF this] show ?thesis .
      next
        case EOF
        with False Inr 1(2) show ?thesis by (auto simp: Let_def)
      next
        case (ReadErr m)
        with False Inr 1(2) show ?thesis by (auto simp: Let_def)
      qed
    qed
  qed
qed

lemma readLoop_checked:
  assumes "readLoop env hp t st = Some y"
  shows "reads st \<le> reads (snd y)
       \<and> (\<forall>i. reads st \<le> i \<and> i < reads (snd y) \<longrightarrow> \<not> ctxDone env i)"
proof (rule readLoop.raw_induct
    [where P = "\<lambda>env hp t st y. reads st \<le> reads (snd y)
       \<and> (\<forall>i. reads st \<le> i \<and> i < reads (snd y) \<longrightarrow> \<not> ctxDone env i)", OF _ assms],
    goal_cases)
  case (1 loop env hp t st y)
  show ?case
  proof (cases "ctxDone env (reads st)")
    case True
    with 1(2) show ?thesis by auto
  next
    case False
    let ?st1 = "st\<lparr>reads := reads st + 1\<rparr>"
    have one: "\<And>i. reads st \<le> i \<and> i < reads st + 1 \<longrightarrow> \<not> ctxDone env i"
      using False by (metis Suc_eq_plus1 le_antisym less_Suc_eq_le)
    show ?thesis
    proof (cases "writeChunk env hp t ?st1 (reads st) (fst (bodyRead env (reads st)))")
      case (Inl e)
      with False 1(2) one show ?thesis by (auto simp: Let_def)
    next
      case (Inr st2)
      have r2: "reads st2 = reads st + 1" using writeChunk_reads [OF Inr] by simp
      show ?thesis
      proof (cases "snd (bodyRead env (reads st))")
        case NoErr
        with False Inr 1(2) have "loop env hp t st2 = Some y" by (simp add: Let_def)
        from 1(1) [OF this] have ih: "reads st2 \<le> reads (snd y)"
          "\<forall>i. reads st2 \<le> i \<and> i < reads (snd y) \<longrightarrow> \<not> ctxDone env i" by blast+
        show ?thesis
        proof (intro conjI allI impI)
          show "reads st \<le> reads (snd y)" using ih(1) r2 by simp
        next
          fix i assume a: "reads st \<le> i \<and> i < reads (snd y)"
          show "\<not> ctxDone env i"
          proof (cases "i = reads st")
            case True then show ?thesis using False by simp
          next
            case False
            then have "reads st2 \<le> i" using a r2 by simp
            then show ?thesis using ih(2) a by blast
          qed
        qed
      next
        case EOF
        with False Inr 1(2) one r2 show ?thesis by (auto simp: Let_def)
      next
        case (ReadErr m)
        with False Inr 1(2) one r2 show ?thesis by (auto simp: Let_def)
      qed
    qed
  qed
qed

lemma readLoop_cancel:
  "ctxDone env k \<Longrightarrow> reads st \<le> k \<Longrightarrow> d = k - reads st \<Longrightarrow>
     \<exists>e st'. readLoop env hp t st = Some (e, st') \<and> reads st' \<le> k
       \<and> ((\<forall>j. reads st \<le> j \<and> j < k \<longrightarrow>
              \<not> ctxDone env j \<and> snd (bodyRead env j) = NoErr
              \<and> (fst (bodyRead env j) > 0 \<longrightarrow> fileWriteErr env j = None))
            \<longrightarrow> e = Some (ContextError (ctxErr env)) \<and> reads st' = k)"
proof (induction d arbitrary: st)
  case 0
  then have "reads st = k" by simp
  with 0(1) show ?case by (subst readLoop.simps) auto
next
  case (Suc d)
  let ?i = "reads st"
  let ?st1 = "st\<lparr>reads := ?i + 1\<rparr>"
  have lt: "?i < k" using Suc.prems by simp
  show ?case
  proof (cases "ctxDone env ?i")
    case True
    then show ?thesis using lt by (subst readLoop.simps) auto
  next
    case False
    show ?thesis
    proof (cases "writeChunk env hp t ?st1 ?i (fst (bodyRead env ?i))")
      case (Inl e)
      obtain m where m: "e = WriteFailed m" "fst (bodyRead env ?i) > 0" "fileWriteErr env ?i = Some m"
        using writeChunk_Inl [OF Inl] by blast
      have run: "readLoop env hp t st = Some (Some e, ?st1)"
        using False Inl by (subst readLoop.simps) (simp add: Let_def)
      have "\<not> (\<forall>j. ?i \<le> j \<and> j < k \<longrightarrow>
              \<not> ctxDone env j \<and> snd (bodyRead env j) = NoErr
              \<and> (fst (bodyRead env j) > 0 \<longrightarrow> fileWriteErr env j = None))"
        using m lt by auto
      then show ?thesis using run lt by auto
    next
      case (Inr st2)
      have r2: "reads st2 = ?i + 1" using writeChunk_reads [OF Inr] by simp
      show ?thesis
      proof (cases "snd (bodyRead env ?i)")
        case NoErr
        have run: "readLoop env hp t st = readLoop env hp t st2"
          using False Inr NoErr by (subst readLoop.simps) (simp add: Let_def)
        have "reads st2 \<le> k" "d = k - reads st2" using r2 lt Suc.prems by simp_all
        from Suc.IH [OF Suc.prems(1) this]
        obtain e st' where ih: "readLoop env hp t st2 = Some (e, st')" "reads st' \<le> k"
          "(\<forall>j. reads st2 \<le> j \<and> j < k \<longrightarrow>
              \<not> ctxDone env j \<and> snd (bodyRead env j) = NoErr
              \<and> (fst (bodyRead env j) > 0 \<longrightarrow> fileWriteErr env j = None))
            \<longrightarrow> e = Some (ContextError (ctxErr env)) \<and> reads st' = k" by blast
        show ?thesis using run ih r2 by auto
      next
        case EOF
        have run: "readLoop env hp t st = Some (None, st2)"
          using False Inr EOF by (subst readLoop.simps) (simp add: Let_def)
        show ?thesis using run r2 lt EOF by auto
      next
        case (ReadErr m)
        have run: "readLoop env hp t st = Some (Some (ReadFailed m), st2)"
          using False Inr ReadErr by (subst readLoop.simps) (simp add: Let_def)
        show ?thesis using run r2 lt ReadErr by auto
      qed
    qed
  qed
qed

section \<open>Status codes, progress calls and cancellation\<close>

lemma downloadFile_loop:
  "reachesBody env \<Longrightarrow>
   downloadFile env hp =
     map_option
       (\<lambda>(e, st). \<lparr>derr = e, fileCreated = True, chunksWritten = chunks st,
                   progressCalls = reported st, readsBegun = reads st\<rparr>)
       (readLoop env hp (ContentLength env)
          \<lparr>downloaded = 0, reads = 0, chunks = [], reported = []\<rparr>)"
  by (simp add: downloadFile_def reachesBody_def)

lemma downloadFile_returns:
  assumes "reachesBody env" and "downloadFile env hp = Some r"
  shows "\<exists>e st. readLoop env hp (ContentLength env)
            \<lparr>downloaded = 0, reads = 0, chunks = [], reported = []\<rparr> = Some (e, st)
          \<and> r = \<lparr>derr = e, fileCreated = True, chunksWritten = chunks st,
                   progressCalls = reported st, readsBegun = reads st\<rparr>"
proof (cases "readLoop env hp (ContentLength env)
            \<lparr>downloaded = 0, reads = 0, chunks = [], reported = []\<rparr>")
  case None
  with assms show ?thesis by (simp add: downloadFile_loop)
next
  case (Some y)
  with assms show ?thesis by (cases y) (auto simp: downloadFile_loop)
qed

lemma downloadFile_early:
  "\<not> reachesBody env \<Longrightarrow>
   \<exists>e. downloadFile env hp = Some (failedBeforeBody e)"
  by (auto simp: downloadFile_def reachesBody_def split: option.splits)

lemma twoChunks_run:
  "downloadFile twoChunks True =
     Some \<lparr>derr = None, fileCreated = True, chunksWritten = [5, 7],
           progressCalls = [(5, 12), (12, 12)], readsBegun = 3\<rparr>"
  by (simp add: downloadFile_def twoChunks_def readLoop.simps writeChunk_def ContentLength_def)

lemma readLoop_stops:
  "stops env k \<Longrightarrow> reads st \<le> k \<Longrightarrow> d = k - reads st \<Longrightarrow>
     \<exists>y. readLoop env hp t st = Some y"
proof (induction d arbitrary: st)
  case 0
  then have k: "reads st = k" by simp
  let ?st1 = "st\<lparr>reads := reads st + 1\<rparr>"
  show ?case
  proof (cases "ctxDone env (reads st)")
    case True
    then show ?thesis by (subst readLoop.simps) auto
  next
    case False
    show ?thesis
    proof (cases "writeChunk env hp t ?st1 (reads st) (fst (bodyRead env (reads st)))")
      case (Inl e)
      then show ?thesis using False by (subst readLoop.simps) (simp add: Let_def)
    next
      case (Inr st2)
      have "\<not> (fst (bodyRead env k) > 0 \<and> fileWriteErr env k \<noteq> None)"
        using Inr k by (auto simp: writeChunk_def split: if_splits option.splits)
      then have "snd (bodyRead env (reads st)) \<noteq> NoErr"
        using 0(1) False k by (auto simp: stops_def)
      then show ?thesis using False Inr
        by (subst readLoop.simps) (cases "snd (bodyRead env (reads st))"; simp add: Let_def)
    qed
  qed
next
  case (Suc d)
  let ?i = "reads st"
  let ?st1 = "st\<lparr>reads := ?i + 1\<rparr>"
  have lt: "?i < k" using Suc.prems by simp
  show ?case
  proof (cases "ctxDone env ?i")
    case True
    then show ?thesis by (subst readLoop.simps) auto
  next
    case False
    show ?thesis
    proof (cases "writeChunk env hp t ?st1 ?i (fst (bodyRead env ?i))")
      case (Inl e)
      then show ?thesis using False by (subst readLoop.simps) (simp add: Let_def)
    next
      case (Inr st2)
      have r2: "reads st2 = ?i + 1" using writeChunk_reads [OF Inr] by simp
      show ?thesis
      proof (cases "snd (bodyRead env ?i)")
        case NoErr
        have run: "readLoop env hp t st = readLoop env hp t st2"
          using False Inr NoErr by (subst readLoop.simps) (simp add: Let_def)
        have "reads st2 \<le> k" "d = k - reads st2" using r2 lt Suc.prems by simp_all
        from Suc.IH [OF Suc.prems(1) this] show ?thesis using run by simp
      next
        case EOF
        then show ?thesis using False Inr by (subst readLoop.simps) (simp add: Let_def)
      next
        case (ReadErr m)
        then show ?thesis using False Inr by (subst readLoop.simps) (simp add: Let_def)
      qed
    qed
  qed
qed

lemma downloadFile_stops:
  assumes "stops env k"
  shows "\<exists>r. downloadFile env hp = Some r"
proof (cases "reachesBody env")
  case False
  from downloadFile_early [OF this] show ?thesis by blast
next
  case True
  let ?init = "\<lparr>downloaded = 0, reads = 0, chunks = [], reported = []\<rparr>"
  have "reads ?init \<le> k" by simp
  from readLoop_stops [OF assms this refl, of hp "ContentLength env"]
  obtain y where "readLoop env hp (ContentLength env) ?init = Some y" by blast
  then show ?thesis by (simp add: downloadFile_loop [OF True])
qed

lemma readLoop_ends:
  "reads st \<le> j \<Longrightarrow> d = j - reads st \<Longrightarrow>
   \<forall>i. reads st \<le> i \<and> i < j \<longrightarrow>
       \<not> ctxDone env i \<and> snd (bodyRead env i) = NoErr
       \<and> (fst (bodyRead env i) > 0 \<longrightarrow> fileWriteErr env i = None) \<Longrightarrow>
   \<not> ctxDone env j \<Longrightarrow> snd (bodyRead env j) \<noteq> NoErr \<Longrightarrow>
   (fst (bodyRead env j) > 0 \<longrightarrow> fileWriteErr env j = None) \<Longrightarrow>
     \<exists>st'. readLoop env hp t st = Some (readOutcome (snd (bodyRead env j)), st')
           \<and> reads st' = Suc j"
proof (induction d arbitrary: st)
  case 0
  then have k: "reads st = j" by simp
  let ?st1 = "st\<lparr>reads := reads st + 1\<rparr>"
  obtain st2 where w: "writeChunk env hp t ?st1 (reads st) (fst (bodyRead env (reads st))) = Inr st2"
    using 0(6) k by (cases "fst (bodyRead env j) > 0") (auto simp: writeChunk_def Let_def)
  have r2: "reads st2 = Suc j" using writeChunk_reads [OF w] k by simp
  have "readLoop env hp t st = Some (readOutcome (snd (bodyRead env j)), st2)"
    using 0(4,5) k w
    by (subst readLoop.simps)
       (cases "snd (bodyRead env j)"; simp add: Let_def readOutcome_def)
  then show ?case using r2 by blast
next
  case (Suc d)
  let ?i = "reads st"
  let ?st1 = "st\<lparr>reads := ?i + 1\<rparr>"
  have lt: "?i < j" using Suc.prems by simp
  have c: "\<not> ctxDone env ?i" "snd (bodyRead env ?i) = NoErr"
    "fst (bodyRead env ?i) > 0 \<longrightarrow> fileWriteErr env ?i = None"
    using Suc.prems(3) lt by auto
  obtain st2 where w: "writeChunk env hp t ?st1 ?i (fst (bodyRead env ?i)) = Inr st2"
    using c(3) by (cases "fst (bodyRead env ?i) > 0") (auto simp: writeChunk_def Let_def)
  have r2: "reads st2 = ?i + 1" using writeChunk_reads [OF w] by simp
  have run: "readLoop env hp t st = readLoop env hp t st2"
    using c w by (subst readLoop.simps) (simp add: Let_def)
  have a: "reads st2 \<le> j" "d = j - reads st2" using r2 lt Suc.prems by simp_all
  have b: "\<forall>i. reads st2 \<le> i \<and> i < j \<longrightarrow>
       \<not> ctxDone env i \<and> snd (bodyRead env i) = NoErr
       \<and> (fst (bodyRead env i) > 0 \<longrightarrow> fileWriteErr env i = None)"
    using Suc.prems(3) r2 by auto
  from Suc.IH [OF a b Suc.prems(4,5,6)] show ?case using run by simp
qed

lemma readLoop_context_error:
  assumes "readLoop env hp t st = Some y"
  shows "\<forall>c. fst y = Some (ContextError c) \<longrightarrow> c = ctxErr env \<and> ctxDone env (reads (snd y))"
proof (rule readLoop.raw_induct
    [where P = "\<lambda>env hp t st y. \<forall>c. fst y = Some (ContextError c) \<longrightarrow>
                   c = ctxErr env \<and> ctxDone env (reads (snd y))", OF _ assms], goal_cases)
  case (1 loop env hp t st y)
  show ?case
  proof (cases "ctxDone env (reads st)")
    case True
    with 1(2) show ?thesis by auto
  next
    case False
    let ?st1 = "st\<lparr>reads := reads st + 1\<rparr>"
    show ?thesis
    proof (cases "writeChunk env hp t ?st1 (reads st) (fst (bodyRead env (reads st)))")
      case (Inl e)
      with False 1(2) show ?thesis by (auto simp: Let_def dest: writeChunk_Inl)
    next
      case (Inr st2)
      show ?thesis
      proof (cases "snd (bodyRead env (reads st))")
        case NoErr
        with False Inr 1(2) have "loop env hp t st2 = Some y" by (simp add: Let_def)
        from 1(1) [OF this] show ?thesis .
      next
        case EOF
        with False Inr 1(2) show ?thesis by (auto simp: Let_def)
      next
        case (ReadErr m)
        with False Inr 1(2) show ?thesis by (auto simp: Let_def)
      qed
    qed
  qed
qed

text \<open>
  C3, as stated, fails: a 206 response is a 2xx response, and \<^verbatim>\<open>downloadFile\<close> rejects it
  with the status error before it creates the file or reads the body.
\<close>

theorem downloadFile_status_counterexample:
  "200 \<le> StatusCode partialContent \<and> StatusCode partialContent < 300
   \<and> downloadFile partialContent True =
       Some \<lparr>derr = Some (BadStatus 206), fileCreated = False, chunksWritten = [],
             progressCalls = [], readsBegun = 0\<rparr>"
  by (simp add: downloadFile_def partialContent_def twoChunks_def failedBeforeBody_def)

text \<open>
  C3, amended. Once the request has been sent and answered, every status code other than
  200 makes \<^verbatim>\<open>downloadFile\<close> return the error carrying that status code, and with status
  200 no run of it ends in a status error: the download fails on status grounds exactly
  when the status is not 200.
\<close>

theorem downloadFile_status_200_only:
  "newRequestErr env = None \<and> doErr env = None \<longrightarrow>
     (StatusCode env \<noteq> 200 \<longrightarrow>
        downloadFile env hp = Some (failedBeforeBody (BadStatus (StatusCode env))))
     \<and> (StatusCode env = 200 \<longrightarrow>
          (\<forall>r s. downloadFile env hp = Some r \<longrightarrow> derr r \<noteq> Some (BadStatus s)))"
proof (intro impI conjI allI)
  assume sent: "newRequestErr env = None \<and> doErr env = None"
  { assume "StatusCode env \<noteq> 200"
    with sent show "downloadFile env hp = Some (failedBeforeBody (BadStatus (StatusCode env)))"
      by (simp add: downloadFile_def) }
  { fix r s
    assume ok: "StatusCode env = 200" and run: "downloadFile env hp = Some r"
    show "derr r \<noteq> Some (BadStatus s)"
    proof (cases "createErr env")
      case (Some m)
      with sent ok run show ?thesis by (auto simp: downloadFile_def failedBeforeBody_def)
    next
      case None
      with sent ok have "reachesBody env" by (simp add: reachesBody_def)
      from downloadFile_returns [OF this run]
      obtain e st where loop: "readLoop env hp (ContentLength env)
          \<lparr>downloaded = 0, reads = 0, chunks = [], reported = []\<rparr> = Some (e, st)"
        and r: "derr r = e" by auto
      from readLoop_no_status [OF loop, of s] r show ?thesis by simp
    qed }
qed

theorem downloadFile_status_200_only_witness:
  "newRequestErr notFound = None \<and> doErr notFound = None \<and> StatusCode notFound \<noteq> 200
   \<and> downloadFile notFound False = Some (failedBeforeBody (BadStatus 404))
   \<and> newRequestErr twoChunks = None \<and> doErr twoChunks = None \<and> StatusCode twoChunks = 200
   \<and> (\<exists>r. downloadFile twoChunks True = Some r \<and> derr r \<noteq> Some (BadStatus 200))"
  using downloadFile_status_200_only [of notFound False]
    downloadFile_status_200_only [of twoChunks True] twoChunks_run
  by (simp add: notFound_def twoChunks_def)

lemma chunkSizes_Suc:
  "chunkSizes env (Suc k) =
     chunkSizes env k @ (if 0 < fst (bodyRead env k) then [fst (bodyRead env k)] else [])"
  by (simp add: chunkSizes_def)

lemma writeChunk_chunks:
  "writeChunk env hp t st i n = Inr st' \<Longrightarrow>
     chunks st' = chunks st @ (if 0 < n then [n] else [])"
  by (auto simp: writeChunk_def Let_def split: if_splits option.splits)

lemma readLoop_chunks:
  assumes "readLoop env hp t st = Some y"
  shows "chunks st = chunkSizes env (reads st) \<longrightarrow>
         chunks (snd y) =
           chunkSizes env (if writeFailed (fst y) then reads (snd y) - 1 else reads (snd y))"
proof (rule readLoop.raw_induct
    [where P = "\<lambda>env hp t st y. chunks st = chunkSizes env (reads st) \<longrightarrow>
         chunks (snd y) =
           chunkSizes env (if writeFailed (fst y) then reads (snd y) - 1 else reads (snd y))",
     OF _ assms], goal_cases)
  case (1 loop env hp t st y)
  show ?case
  proof (cases "ctxDone env (reads st)")
    case True
    with 1(2) show ?thesis by (auto simp: writeFailed_def)
  next
    case False
    let ?st1 = "st\<lparr>reads := reads st + 1\<rparr>"
    show ?thesis
    proof (cases "writeChunk env hp t ?st1 (reads st) (fst (bodyRead env (reads st)))")
      case (Inl e)
      with False 1(2) show ?thesis
        by (auto simp: Let_def writeFailed_def dest: writeChunk_Inl)
    next
      case (Inr st2)
      have r2: "reads st2 = Suc (reads st)" using writeChunk_reads [OF Inr] by simp
      have step: "chunks st = chunkSizes env (reads st) \<longrightarrow>
                  chunks st2 = chunkSizes env (reads st2)"
        using writeChunk_chunks [OF Inr] r2 by (simp add: chunkSizes_Suc)
      show ?thesis
      proof (cases "snd (bodyRead env (reads st))")
        case NoErr
        with False Inr 1(2) have "loop env hp t st2 = Some y" by (simp add: Let_def)
        from 1(1) [OF this] step show ?thesis by blast
      next
        case EOF
        with False Inr 1(2) step show ?thesis by (auto simp: Let_def writeFailed_def)
      next
        case (ReadErr m)
        with False Inr 1(2) step show ?thesis by (auto simp: Let_def writeFailed_def)
      qed
    qed
  qed
qed

text \<open>
  C4, as stated, fails: with no declared content length the second argument of every
  progress call is \<open>-1\<close>, the value \<^verbatim>\<open>resp.ContentLength\<close> has then, not zero.
\<close>

theorem downloadFile_progress_counterexample:
  "declaredLength unknownLength = None
   \<and> downloadFile unknownLength True =
       Some \<lparr>derr = None, fileCreated = True, chunksWritten = [5, 7],
             progressCalls = [(5, - 1), (12, - 1)], readsBegun = 3\<rparr>"
  by (simp add: downloadFile_def unknownLength_def twoChunks_def readLoop.simps writeChunk_def
      ContentLength_def Let_def numeral_3_eq_3)

lemma downloadFile_returned_progress:
  assumes "downloadFile env True = Some r"
  shows "progressCalls r =
           runningTotals (chunksWritten r)
             (case declaredLength env of Some n \<Rightarrow> n | None \<Rightarrow> - 1)
       \<and> chunksWritten r =
           chunkSizes env (if writeFailed (derr r) then readsBegun r - 1 else readsBegun r)"
proof (cases "reachesBody env")
  case False
  from downloadFile_early [OF this, of True] assms
  show ?thesis
    by (auto simp: failedBeforeBody_def runningTotals_def chunkSizes_def writeFailed_def)
next
  case True
  let ?init = "\<lparr>downloaded = 0, reads = 0, chunks = [], reported = []\<rparr>"
  from downloadFile_returns [OF True assms]
  obtain e st where loop: "readLoop env True (ContentLength env) ?init = Some (e, st)"
    and r: "r = \<lparr>derr = e, fileCreated = True, chunksWritten = chunks st,
                 progressCalls = reported st, readsBegun = reads st\<rparr>" by blast
  have "loopInv True (ContentLength env) ?init"
    by (simp add: loopInv_def runningTotals_def)
  with readLoop_inv [OF loop] have "loopInv True (ContentLength env) st" by simp
  then have calls: "reported st = runningTotals (chunks st) (ContentLength env)"
    by (simp add: loopInv_def)
  have "chunks ?init = chunkSizes env (reads ?init)" by (simp add: chunkSizes_def)
  with readLoop_chunks [OF loop]
  have sizes: "chunks st = chunkSizes env (if writeFailed e then reads st - 1 else reads st)"
    by simp
  show ?thesis using calls sizes r by (simp add: ContentLength_def)
qed

text \<open>
  C4, amended. With a callback, every result of \<^verbatim>\<open>downloadFile\<close> shows one progress call
  per chunk written, in order; the first argument of the \<open>k\<close>-th call is the sum of the
  first \<open>k\<close> chunk sizes and the second is \<^verbatim>\<open>resp.ContentLength\<close>: the declared length,
  or \<open>-1\<close> when the length is unknown. The chunks written are the non-empty reads of the
  body, up to the read whose write failed, if any. There is such a result whenever some
  iteration ends the loop: the body ends or fails, a write fails, or the signal is
  raised.
\<close>

theorem downloadFile_progress_calls:
  "(\<forall>r. downloadFile env True = Some r \<longrightarrow>
        progressCalls r =
          runningTotals (chunksWritten r)
            (case declaredLength env of Some n \<Rightarrow> n | None \<Rightarrow> - 1)
        \<and> chunksWritten r =
            chunkSizes env (if writeFailed (derr r) then readsBegun r - 1 else readsBegun r))
   \<and> (stops env k \<longrightarrow> (\<exists>r. downloadFile env True = Some r))"
  using downloadFile_returned_progress [of env] downloadFile_stops [of env k True] by blast

theorem downloadFile_progress_calls_witness:
  "stops twoChunks 2
   \<and> downloadFile twoChunks True =
     Some \<lparr>derr = None, fileCreated = True, chunksWritten = [5, 7],
           progressCalls = [(5, 12), (12, 12)], readsBegun = 3\<rparr>
   \<and> runningTotals [5, 7] 12 = [(5, 12), (12, 12)]
   \<and> chunkSizes twoChunks 3 = [5, 7]"
proof -
  have run: "downloadFile twoChunks True =
     Some \<lparr>derr = None, fileCreated = True, chunksWritten = [5, 7],
           progressCalls = [(5, 12), (12, 12)], readsBegun = 3\<rparr>"
    by (rule twoChunks_run)
  have st: "stops twoChunks 2"
    by (simp add: stops_def twoChunks_def)
  from downloadFile_progress_calls [of twoChunks 2]
  show ?thesis using run st by (simp add: twoChunks_def writeFailed_def)
qed

text \<open>
  C7, as stated, fails when the signal is raised while a read is in flight and that read
  ends the loop. In the first run the poll before the third read finds the signal not
  raised, the signal is raised by the time of the next poll, the read reaches the end of
  the body, and \<^verbatim>\<open>downloadFile\<close> returns success. In the second run the read in flight
  fails, and \<^verbatim>\<open>downloadFile\<close> returns the read failure, not the value of
  \<^verbatim>\<open>ctx.Err()\<close>.
\<close>

theorem downloadFile_cancellation_counterexample:
  "reachesBody cancelledDuringLastRead
   \<and> \<not> ctxDone cancelledDuringLastRead 2 \<and> ctxDone cancelledDuringLastRead 3
   \<and> downloadFile cancelledDuringLastRead True =
       Some \<lparr>derr = None, fileCreated = True, chunksWritten = [5, 7],
             progressCalls = [(5, 12), (12, 12)], readsBegun = 3\<rparr>
   \<and> reachesBody resetDuringRead
   \<and> \<not> ctxDone resetDuringRead 1 \<and> ctxDone resetDuringRead 2
   \<and> downloadFile resetDuringRead True =
       Some \<lparr>derr = Some (ReadFailed ''connection reset by peer''), fileCreated = True,
             chunksWritten = [5], progressCalls = [(5, 12)], readsBegun = 2\<rparr>"
proof -
  have run2: "downloadFile resetDuringRead True =
       Some \<lparr>derr = Some (ReadFailed ''connection reset by peer''), fileCreated = True,
             chunksWritten = [5], progressCalls = [(5, 12)], readsBegun = 2\<rparr>"
    by code_simp
  have pre2: "reachesBody resetDuringRead
   \<and> \<not> ctxDone resetDuringRead 1 \<and> ctxDone resetDuringRead 2"
    by (simp add: resetDuringRead_def twoChunks_def reachesBody_def)
  have run: "downloadFile cancelledDuringLastRead True =
       Some \<lparr>derr = None, fileCreated = True, chunksWritten = [5, 7],
             progressCalls = [(5, 12), (12, 12)], readsBegun = 3\<rparr>"
    by code_simp
  have "reachesBody cancelledDuringLastRead
   \<and> \<not> ctxDone cancelledDuringLastRead 2 \<and> ctxDone cancelledDuringLastRead 3"
    by (simp add: cancelledDuringLastRead_def twoChunks_def reachesBody_def)
  then show ?thesis using run run2 pre2 by simp
qed

text \<open>
  C7, amended. Let the download reach its read loop and let the cancellation signal be
  raised by the time iteration \<open>k\<close> polls it. Then \<^verbatim>\<open>downloadFile\<close> returns, it has begun
  at most \<open>k\<close> reads, and every read it began was preceded by a poll that found the signal
  not raised. If the loop is still running at iteration \<open>k\<close>, exactly \<open>k\<close> reads were
  begun and the result is the context's error; the context's error is returned from
  such a poll only. A signal raised while a read is in flight is seen at the next poll
  only: if that read ends the loop, the result is that read's outcome, success at the
  end of the body and the read failure otherwise.
\<close>

theorem downloadFile_cancellation:
  assumes "reachesBody env" and "ctxDone env k"
  shows "\<exists>r. downloadFile env hp = Some r \<and> readsBegun r \<le> k
           \<and> (\<forall>i \<in> set [0..<readsBegun r]. \<not> ctxDone env i)
           \<and> (keepsGoing env k \<longrightarrow>
                derr r = Some (ContextError (ctxErr env)) \<and> readsBegun r = k)
           \<and> (\<forall>c. derr r = Some (ContextError c) \<longrightarrow>
                c = ctxErr env \<and> ctxDone env (readsBegun r))
           \<and> (\<forall>j \<in> set [0..<k]. endsInFlight env j \<longrightarrow>
                derr r = readOutcome (snd (bodyRead env j)) \<and> readsBegun r = Suc j)"
proof -
  let ?init = "\<lparr>downloaded = 0, reads = 0, chunks = [], reported = []\<rparr>"
  have "reads ?init \<le> k" by simp
  from readLoop_cancel [OF assms(2) this refl, of hp "ContentLength env"]
  obtain e st where loop: "readLoop env hp (ContentLength env) ?init = Some (e, st)"
    and le: "reads st \<le> k"
    and cancel: "(\<forall>j. 0 \<le> j \<and> j < k \<longrightarrow>
              \<not> ctxDone env j \<and> snd (bodyRead env j) = NoErr
              \<and> (fst (bodyRead env j) > 0 \<longrightarrow> fileWriteErr env j = None))
            \<longrightarrow> e = Some (ContextError (ctxErr env)) \<and> reads st = k"
    by auto
  have checked: "\<forall>i \<in> set [0..<reads st]. \<not> ctxDone env i"
    using readLoop_checked [OF loop] by simp
  have run: "downloadFile env hp =
      Some \<lparr>derr = e, fileCreated = True, chunksWritten = chunks st,
            progressCalls = reported st, readsBegun = reads st\<rparr>"
    using loop by (simp add: downloadFile_loop [OF assms(1)])
  have going: "keepsGoing env k \<longrightarrow> e = Some (ContextError (ctxErr env)) \<and> reads st = k"
    using cancel by (simp add: keepsGoing_def)
  have ctx: "\<forall>c. e = Some (ContextError c) \<longrightarrow> c = ctxErr env \<and> ctxDone env (reads st)"
    using readLoop_context_error [OF loop] by simp
  have eof: "\<forall>j \<in> set [0..<k]. endsInFlight env j \<longrightarrow>
               e = readOutcome (snd (bodyRead env j)) \<and> reads st = Suc j"
  proof (intro ballI impI)
    fix j assume "j \<in> set [0..<k]" and l: "endsInFlight env j"
    have a: "reads ?init \<le> j" by simp
    have b: "\<forall>i. reads ?init \<le> i \<and> i < j \<longrightarrow>
       \<not> ctxDone env i \<and> snd (bodyRead env i) = NoErr
       \<and> (fst (bodyRead env i) > 0 \<longrightarrow> fileWriteErr env i = None)"
      using l by (simp add: endsInFlight_def keepsGoing_def)
    have c: "\<not> ctxDone env j" "snd (bodyRead env j) \<noteq> NoErr"
      "fst (bodyRead env j) > 0 \<longrightarrow> fileWriteErr env j = None"
      using l by (simp_all add: endsInFlight_def)
    from readLoop_ends [OF a refl b c, of hp "ContentLength env"] loop
    show "e = readOutcome (snd (bodyRead env j)) \<and> reads st = Suc j" by auto
  qed
  let ?r = "\<lparr>derr = e, fileCreated = True, chunksWritten = chunks st,
            progressCalls = reported st, readsBegun = reads st\<rparr>"
  have 1: "readsBegun ?r \<le> k" using le by simp
  have 2: "\<forall>i \<in> set [0..<readsBegun ?r]. \<not> ctxDone env i" using checked by simp
  have 3: "keepsGoing env k \<longrightarrow>
             derr ?r = Some (ContextError (ctxErr env)) \<and> readsBegun ?r = k"
    using going by simp
  have 4: "\<forall>c. derr ?r = Some (ContextError c) \<longrightarrow>
             c = ctxErr env \<and> ctxDone env (readsBegun ?r)"
    using ctx by simp
  have 5: "\<forall>j \<in> set [0..<k]. endsInFlight env j \<longrightarrow>
             derr ?r = readOutcome (snd (bodyRead env j)) \<and> readsBegun ?r = Suc j"
    using eof by simp
  show ?thesis
    by (rule exI [of _ ?r]) (intro conjI run 1 2 3 4 5)
qed

theorem downloadFile_cancellation_witness:
  "reachesBody cancelledAfterFirst \<and> ctxDone cancelledAfterFirst 1
   \<and> keepsGoing cancelledAfterFirst 1
   \<and> downloadFile cancelledAfterFirst True =
       Some \<lparr>derr = Some (ContextError Canceled), fileCreated = True, chunksWritten = [5],
             progressCalls = [(5, 12)], readsBegun = 1\<rparr>
   \<and> reachesBody cancelledDuringLastRead \<and> ctxDone cancelledDuringLastRead 3
   \<and> endsInFlight cancelledDuringLastRead 2
   \<and> (\<exists>r. downloadFile cancelledDuringLastRead True = Some r \<and> derr r = None
          \<and> readsBegun r = 3)"
proof -
  have a: "reachesBody cancelledAfterFirst"
    by (simp add: reachesBody_def cancelledAfterFirst_def twoChunks_def)
  have b: "ctxDone cancelledAfterFirst 1"
    by (simp add: cancelledAfterFirst_def)
  have c: "keepsGoing cancelledAfterFirst 1"
    by (simp add: keepsGoing_def cancelledAfterFirst_def twoChunks_def)
  have run: "downloadFile cancelledAfterFirst True =
       Some \<lparr>derr = Some (ContextError Canceled), fileCreated = True, chunksWritten = [5],
             progressCalls = [(5, 12)], readsBegun = 1\<rparr>"
    by (simp add: downloadFile_def cancelledAfterFirst_def twoChunks_def readLoop.simps
        writeChunk_def ContentLength_def)
  have a2: "reachesBody cancelledDuringLastRead"
    by (simp add: reachesBody_def cancelledDuringLastRead_def twoChunks_def)
  have b2: "ctxDone cancelledDuringLastRead 3"
    by (simp add: cancelledDuringLastRead_def)
  have c2: "endsInFlight cancelledDuringLastRead 2"
    by code_simp
  have out: "readOutcome (snd (bodyRead cancelledDuringLastRead 2)) = None"
    by code_simp
  have in2: "(2::nat) \<in> set [0..<3]" by simp
  from downloadFile_cancellation [OF a2 b2, of True]
  obtain r where r: "downloadFile cancelledDuringLastRead True = Some r"
    and eof: "\<forall>j \<in> set [0..<3]. endsInFlight cancelledDuringLastRead j \<longrightarrow>
                derr r = readOutcome (snd (bodyRead cancelledDuringLastRead j))
                \<and> readsBegun r = Suc j"
    by blast
  from eof in2 c2 have "derr r = readOutcome (snd (bodyRead cancelledDuringLastRead 2))
      \<and> readsBegun r = Suc 2" by blast
  then have "derr r = None \<and> readsBegun r = 3" using out by simp
  then have last: "\<exists>r. downloadFile cancelledDuringLastRead True = Some r \<and> derr r = None
          \<and> readsBegun r = 3" using r by blast
  from downloadFile_cancellation [OF a b, of True] c run
  show ?thesis using a b a2 b2 c2 last by simp
qed

section \<open>The sibling audio path\<close>

lemma HasSuffix_append: "HasSuffix (a @ b) b"
  by (simp add: HasSuffix_def)

lemma TrimSuffix_append: "TrimSuffix (a @ b) b = a"
  by (simp add: TrimSuffix_def HasSuffix_append)

lemma extScan_dot:
  "\<forall>c \<in> set xs. c \<noteq> CHR ''/'' \<and> c \<noteq> CHR ''.'' \<Longrightarrow>
     extScan (xs @ CHR ''.'' # rest) acc = CHR ''.'' # (rev xs @ acc)"
  by (induction xs arbitrary: acc) auto

lemma filepathExt_dot:
  assumes "CHR ''.'' \<notin> set e" and "CHR ''/'' \<notin> set e"
  shows "filepathExt (base @ ''.'' @ e) = ''.'' @ e"
proof -
  have "\<forall>c \<in> set (rev e). c \<noteq> CHR ''/'' \<and> c \<noteq> CHR ''.''" using assms by auto
  from extScan_dot [OF this, of "rev base" "[]"] show ?thesis
    by (simp add: filepathExt_def)
qed

lemma audioFileFor_empty_ext:
  "filepathExt outputPath = [] \<Longrightarrow>
     audioFileFor format outputPath = outputPath @ ''.'' @ audioExtFor format"
  by (simp add: audioFileFor_def TrimSuffix_def HasSuffix_def)

text \<open>
  C9. When the video output path is \<open>base.e\<close>, with no dot or slash in \<open>e\<close>, the audio
  path is \<open>base.opus\<close> if the format's container extension is \<^verbatim>\<open>webm\<close> and
  \<open>base.m4a\<close> otherwise; a video output path without an extension gets that extension
  appended. The video stream is downloaded to the video output path and the audio stream
  to that audio path.
\<close>

theorem audio_sibling_path:
  "(CHR ''.'' \<notin> set e \<and> CHR ''/'' \<notin> set e \<longrightarrow>
      audioFileFor format (base @ ''.'' @ e) =
        base @ ''.'' @ (if Ext format = ''webm'' then ''opus'' else ''m4a''))
   \<and> (filepathExt outputPath = [] \<longrightarrow>
        audioFileFor format outputPath =
          outputPath @ ''.'' @ (if Ext format = ''webm'' then ''opus'' else ''m4a''))
   \<and> streamCalls (downloadVideoWithAudio w format outputPath) =
       [PlainCall (URL format) outputPath (Headers format) True,
        PlainCall (AudioURL format) (audioFileFor format outputPath) (Headers format) True]"
proof (intro conjI impI)
  assume e: "CHR ''.'' \<notin> set e \<and> CHR ''/'' \<notin> set e"
  then have ext: "filepathExt (base @ ''.'' @ e) = ''.'' @ e"
    by (intro filepathExt_dot) simp_all
  have "TrimSuffix (base @ ''.'' @ e) (''.'' @ e) = base"
    by (rule TrimSuffix_append)
  then show "audioFileFor format (base @ ''.'' @ e) =
        base @ ''.'' @ (if Ext format = ''webm'' then ''opus'' else ''m4a'')"
    using ext by (simp add: audioFileFor_def audioExtFor_def)
next
  assume "filepathExt outputPath = []"
  then show "audioFileFor format outputPath =
          outputPath @ ''.'' @ (if Ext format = ''webm'' then ''opus'' else ''m4a'')"
    by (simp add: audioFileFor_empty_ext audioExtFor_def)
next
  show "streamCalls (downloadVideoWithAudio w format outputPath) =
       [PlainCall (URL format) outputPath (Headers format) True,
        PlainCall (AudioURL format) (audioFileFor format outputPath) (Headers format) True]"
    by (simp add: downloadVideoWithAudio_def Let_def split: option.splits)
qed

theorem audio_sibling_path_witness:
  "CHR ''.'' \<notin> set ''mp4'' \<and> CHR ''/'' \<notin> set ''mp4''
   \<and> audioFileFor mp4Format (''/downloads/clip'' @ ''.'' @ ''mp4'') = ''/downloads/clip.m4a''
   \<and> CHR ''.'' \<notin> set ''webm'' \<and> CHR ''/'' \<notin> set ''webm''
   \<and> audioFileFor webmFormat (''/downloads/clip'' @ ''.'' @ ''webm'') = ''/downloads/clip.opus''"
  using audio_sibling_path [of "''mp4''" mp4Format "''/downloads/clip''"]
    audio_sibling_path [of "''webm''" webmFormat "''/downloads/clip''"]
  by (simp add: mp4Format_def webmFormat_def)

section \<open>Outcomes of a dual-stream job\<close>

lemma downloadFile_success_created:
  assumes "downloadFile env hp = Some r" and "derr r = None"
  shows "fileCreated r"
proof (cases "reachesBody env")
  case True
  from downloadFile_returns [OF True assms(1)] show ?thesis by auto
next
  case False
  from downloadFile_early [OF False, of hp] assms show ?thesis
    by (auto simp: failedBeforeBody_def)
qed

lemma notFound_run:
  "downloadFile notFound hp = Some (failedBeforeBody (BadStatus 404))"
  by (simp add: downloadFile_def notFound_def twoChunks_def)

lemma clip_audio_path:
  "audioFileFor mp4Format ''/downloads/clip.mp4'' = ''/downloads/clip.m4a''"
  by (simp add: audioFileFor_def audioExtFor_def filepathExt_def TrimSuffix_def HasSuffix_def
      mp4Format_def)

text \<open>
  C5. Let both downloads of a dual-stream job return. If the video download failed, or
  else the audio download, the job returns that failure and no merge is attempted; a
  file that either download created is on disk afterwards. If both succeeded, the job
  returns success and both files are on disk: with the remux tool available exactly one
  merge of the two files is attempted and its failure is only logged, and with the tool
  unavailable no merge is attempted.
\<close>

theorem dual_stream_outcomes:
  assumes "downloadFile (httpFor w 0) True = Some v"
    and "downloadFile (httpFor w 1) True = Some a"
  shows "(fileCreated v \<longrightarrow> outputPath \<in> set (dualCreated (downloadVideoWithAudio w format outputPath)))
       \<and> (fileCreated a \<longrightarrow>
            audioFileFor format outputPath
              \<in> set (dualCreated (downloadVideoWithAudio w format outputPath)))
       \<and> (\<forall>e. derr v = Some e \<longrightarrow>
            dualReturned (downloadVideoWithAudio w format outputPath)
              = Returned (Some (VideoStreamFailed e))
            \<and> mergeCalls (downloadVideoWithAudio w format outputPath) = [])
       \<and> (\<forall>e. derr v = None \<and> derr a = Some e \<longrightarrow>
            dualReturned (downloadVideoWithAudio w format outputPath)
              = Returned (Some (AudioStreamFailed e))
            \<and> mergeCalls (downloadVideoWithAudio w format outputPath) = [])
       \<and> (derr v = None \<and> derr a = None \<longrightarrow>
            dualReturned (downloadVideoWithAudio w format outputPath) = Returned None
            \<and> set (dualCreated (downloadVideoWithAudio w format outputPath))
                = {outputPath, audioFileFor format outputPath}
            \<and> mergeCalls (downloadVideoWithAudio w format outputPath)
                = (if FFmpegAvailable w then [(outputPath, audioFileFor format outputPath)]
                   else [])
            \<and> (\<forall>m. FFmpegAvailable w
                   \<and> MergeVideoAudioKeepOriginals w outputPath (audioFileFor format outputPath)
                       = Inl m \<longrightarrow>
                   dualLog (downloadVideoWithAudio w format outputPath)
                     = [MergeFailedWarning m outputPath (audioFileFor format outputPath)]))"
proof -
  have ok: "derr v = None \<and> derr a = None \<longrightarrow> fileCreated v \<and> fileCreated a"
    using assms downloadFile_success_created by blast
  show ?thesis
  proof (cases "derr v")
    case (Some e)
    then show ?thesis using assms
      by (simp add: downloadVideoWithAudio_def Let_def createdBy_def)
  next
    case None
    note vNone = None
    show ?thesis
    proof (cases "derr a")
      case (Some e)
      then show ?thesis using assms vNone
        by (simp add: downloadVideoWithAudio_def Let_def createdBy_def)
    next
      case None
      then show ?thesis using assms vNone ok
        by (auto simp: downloadVideoWithAudio_def Let_def createdBy_def)
    qed
  qed
qed

theorem dual_stream_outcomes_witness:
  "downloadFile (httpFor videoFails 0) True = Some (failedBeforeBody (BadStatus 404))
   \<and> (\<exists>a. downloadFile (httpFor videoFails 1) True = Some a \<and> fileCreated a)
   \<and> dualReturned (downloadVideoWithAudio videoFails mp4Format ''/downloads/clip.mp4'')
       = Returned (Some (VideoStreamFailed (BadStatus 404)))
   \<and> ''/downloads/clip.m4a''
       \<in> set (dualCreated (downloadVideoWithAudio videoFails mp4Format ''/downloads/clip.mp4''))
   \<and> (\<exists>v a. downloadFile (httpFor mergeFails 0) True = Some v
          \<and> downloadFile (httpFor mergeFails 1) True = Some a
          \<and> derr v = None \<and> derr a = None)
   \<and> FFmpegAvailable mergeFails
   \<and> dualReturned (downloadVideoWithAudio mergeFails mp4Format ''/downloads/clip.mp4'')
       = Returned None
   \<and> mergeCalls (downloadVideoWithAudio mergeFails mp4Format ''/downloads/clip.mp4'')
       = [(''/downloads/clip.mp4'', ''/downloads/clip.m4a'')]
   \<and> dualLog (downloadVideoWithAudio mergeFails mp4Format ''/downloads/clip.mp4'')
       = [MergeFailedWarning ''exit status 1'' ''/downloads/clip.mp4'' ''/downloads/clip.m4a'']
   \<and> \<not> FFmpegAvailable exampleWorld
   \<and> dualReturned (downloadVideoWithAudio exampleWorld mp4Format ''/downloads/clip.mp4'')
       = Returned None
   \<and> mergeCalls (downloadVideoWithAudio exampleWorld mp4Format ''/downloads/clip.mp4'') = []
   \<and> set (dualCreated (downloadVideoWithAudio exampleWorld mp4Format ''/downloads/clip.mp4''))
       = {''/downloads/clip.mp4'', ''/downloads/clip.m4a''}"
proof -
  have path: "audioFileFor mp4Format ''/downloads/clip.mp4'' = ''/downloads/clip.m4a''"
    by (rule clip_audio_path)
  have f0: "downloadFile (httpFor videoFails 0) True = Some (failedBeforeBody (BadStatus 404))"
    by (simp add: videoFails_def exampleWorld_def notFound_run)
  have f1: "downloadFile (httpFor videoFails 1) True =
     Some \<lparr>derr = None, fileCreated = True, chunksWritten = [5, 7],
           progressCalls = [(5, 12), (12, 12)], readsBegun = 3\<rparr>"
    by (simp add: videoFails_def exampleWorld_def twoChunks_run)
  have m: "downloadFile (httpFor mergeFails k) True =
     Some \<lparr>derr = None, fileCreated = True, chunksWritten = [5, 7],
           progressCalls = [(5, 12), (12, 12)], readsBegun = 3\<rparr>" for k
    by (simp add: mergeFails_def exampleWorld_def twoChunks_run)
  have x: "downloadFile (httpFor exampleWorld k) True =
     Some \<lparr>derr = None, fileCreated = True, chunksWritten = [5, 7],
           progressCalls = [(5, 12), (12, 12)], readsBegun = 3\<rparr>" for k
    by (simp add: exampleWorld_def twoChunks_run)
  have avail: "FFmpegAvailable mergeFails" "\<not> FFmpegAvailable exampleWorld"
    "MergeVideoAudioKeepOriginals mergeFails ''/downloads/clip.mp4'' ''/downloads/clip.m4a''
       = Inl ''exit status 1''"
    by (simp_all add: mergeFails_def exampleWorld_def)
  from dual_stream_outcomes [OF f0 f1, of "''/downloads/clip.mp4''" mp4Format]
    dual_stream_outcomes [OF m m, of "''/downloads/clip.mp4''" mp4Format]
    dual_stream_outcomes [OF x x, of "''/downloads/clip.mp4''" mp4Format]
  show ?thesis using f0 f1 m x avail
    by (simp add: path failedBeforeBody_def)
qed

section \<open>Dispatch to the three downloaders\<close>

lemma ToLower_append: "ToLower (a @ b) = ToLower a @ ToLower b"
  by (simp add: ToLower_def)

lemma HasPrefix_append: "HasPrefix (b @ c) b"
  by (simp add: HasPrefix_def)

lemma Contains_prefix: "Contains (b @ c) b"
proof (cases "b @ c")
  case Nil
  then show ?thesis by simp
next
  case (Cons x xs)
  have "HasPrefix (b @ c) b" by (rule HasPrefix_append)
  then have "HasPrefix (x # xs) b" using Cons by simp
  then have "Contains (x # xs) b" by simp
  then show ?thesis using Cons by simp
qed

lemma Contains_mid: "Contains (a @ b @ c) b"
proof (induction a)
  case Nil
  show ?case using Contains_prefix by simp
next
  case (Cons x a)
  then show ?case by simp
qed

lemma isManifestURL_suffix:
  "ToLower e = ''.m3u8'' \<Longrightarrow> isManifestURL (pre @ e)"
  by (simp add: isManifestURL_def ToLower_append HasSuffix_append)

lemma isManifestURL_query:
  assumes "ToLower e = ''.m3u8''"
  shows "isManifestURL (pre @ e @ ''?'' @ query)"
proof -
  have "ToLower (pre @ e @ ''?'' @ query) = ToLower pre @ ''.m3u8?'' @ ToLower query"
    using assms by (simp add: ToLower_append) (simp add: ToLower_def lowerByte_def)
  then show ?thesis using Contains_mid [of "ToLower pre" "''.m3u8?''" "ToLower query"]
    by (simp add: isManifestURL_def)
qed

lemma selectBestFormat_Some:
  "formats \<noteq> [] \<Longrightarrow> \<exists>f. selectBestFormat formats = Some f"
  by (cases formats) (auto simp: selectBestFormat_def split: option.splits)

lemma calls_fetchResolved:
  "calls (fetchResolved w jobs url u p hdrs hp) =
     [if isManifestURL u then HLSCall u p hdrs else PlainCall u p hdrs hp]"
  by (simp add: fetchResolved_def Let_def split: sum.splits)

lemma calls_video:
  assumes "selectBestFormat formats = Some f"
  shows "calls (downloadWithExtractor w jobs outputDir (Inr (VideoMedia title mediaID formats))
                  url filename hp) =
     [if AudioURL f \<noteq> [] then DualStreamCall f (videoOutputPath w outputDir filename title mediaID f)
      else if isManifestURL (URL f)
        then HLSCall (URL f) (videoOutputPath w outputDir filename title mediaID f) (Headers f)
        else PlainCall (URL f) (videoOutputPath w outputDir filename title mediaID f)
               (Headers f) hp]"
proof -
  have "formats \<noteq> []" using assms by (auto simp: selectBestFormat_def)
  then show ?thesis using assms
    by (simp add: downloadWithExtractor_def Let_def calls_fetchResolved videoOutputPath_def)
qed

lemma calls_audio:
  "calls (downloadWithExtractor w jobs outputDir (Inr (AudioMedia title mediaID u ext))
            url filename hp) =
     [if isManifestURL u
        then HLSCall u (outputPathFor w outputDir filename title mediaID ext) []
        else PlainCall u (outputPathFor w outputDir filename title mediaID ext) [] hp]"
  by (simp add: downloadWithExtractor_def Let_def calls_fetchResolved)

lemma Clean_downloads_song:
  "Join ''/downloads'' ''song.mp3'' = ''/downloads/song.mp3''"
  by (simp add: Join_def Clean_def HasPrefix_def)

text \<open>
  C2, as stated, fails on its last sentence: an audio descriptor whose URL ends in
  \<^verbatim>\<open>.m3u8\<close> is handed to the HLS downloader, not to the Plain Downloader.
\<close>

theorem audio_dispatch_counterexample:
  "calls (downloadWithExtractor exampleWorld [] ''/downloads'' (Inr manifestAudio)
            ''https://site.example/song'' '''' True)
     = [HLSCall ''https://cdn.example/song.m3u8'' ''/downloads/song.mp3'' []]"
proof -
  have "isManifestURL ''https://cdn.example/song.m3u8''"
    using isManifestURL_suffix [of "''.m3u8''" "''https://cdn.example/song''"]
    by (simp add: ToLower_def lowerByte_def)
  moreover have "outputPathFor exampleWorld ''/downloads'' '''' ''song'' ''a1'' ''mp3''
      = ''/downloads/song.mp3''"
    by (simp add: outputPathFor_def exampleWorld_def Clean_downloads_song)
  ultimately show ?thesis
    by (simp add: manifestAudio_def calls_audio)
qed

text \<open>
  C2, amended. A video download with at least one format makes exactly one call, by this
  priority: the Dual-Stream Merger when the selected format has a paired audio URL;
  otherwise the HLS downloader when the lower-cased fetch URL ends in \<^verbatim>\<open>.m3u8\<close> or
  contains \<^verbatim>\<open>.m3u8?\<close>; otherwise the Plain Downloader. An audio download makes exactly
  one call as well, chosen by the same URL test: the HLS downloader for a manifest URL,
  the Plain Downloader otherwise. A URL that ends in \<^verbatim>\<open>.m3u8\<close> in any letter case,
  alone or followed by a query string, passes the test.
\<close>

theorem dispatch_by_priority:
  "(formats \<noteq> [] \<longrightarrow>
      (\<exists>f. selectBestFormat formats = Some f
         \<and> calls (downloadWithExtractor w jobs outputDir (Inr (VideoMedia title mediaID formats))
                    url filename hp) =
             [if AudioURL f \<noteq> []
                then DualStreamCall f (videoOutputPath w outputDir filename title mediaID f)
              else if isManifestURL (URL f)
                then HLSCall (URL f) (videoOutputPath w outputDir filename title mediaID f)
                       (Headers f)
              else PlainCall (URL f) (videoOutputPath w outputDir filename title mediaID f)
                     (Headers f) hp]))
   \<and> calls (downloadWithExtractor w jobs outputDir (Inr (AudioMedia title mediaID u ext))
              url filename hp) =
       [if isManifestURL u
          then HLSCall u (outputPathFor w outputDir filename title mediaID ext) []
          else PlainCall u (outputPathFor w outputDir filename title mediaID ext) [] hp]
   \<and> (ToLower e = ''.m3u8'' \<longrightarrow>
        isManifestURL (pre @ e) \<and> isManifestURL (pre @ e @ ''?'' @ query))"
proof (intro conjI impI)
  assume "formats \<noteq> []"
  then obtain f where f: "selectBestFormat formats = Some f"
    using selectBestFormat_Some by blast
  show "\<exists>f. selectBestFormat formats = Some f
         \<and> calls (downloadWithExtractor w jobs outputDir (Inr (VideoMedia title mediaID formats))
                    url filename hp) =
             [if AudioURL f \<noteq> []
                then DualStreamCall f (videoOutputPath w outputDir filename title mediaID f)
              else if isManifestURL (URL f)
                then HLSCall (URL f) (videoOutputPath w outputDir filename title mediaID f)
                       (Headers f)
              else PlainCall (URL f) (videoOutputPath w outputDir filename title mediaID f)
                     (Headers f) hp]"
    using f calls_video [OF f] by blast
next
  show "calls (downloadWithExtractor w jobs outputDir (Inr (AudioMedia title mediaID u ext))
              url filename hp) =
       [if isManifestURL u
          then HLSCall u (outputPathFor w outputDir filename title mediaID ext) []
          else PlainCall u (outputPathFor w outputDir filename title mediaID ext) [] hp]"
    by (rule calls_audio)
next
  assume "ToLower e = ''.m3u8''"
  then show "isManifestURL (pre @ e)" by (rule isManifestURL_suffix)
next
  assume "ToLower e = ''.m3u8''"
  then show "isManifestURL (pre @ e @ ''?'' @ query)" by (rule isManifestURL_query)
qed

theorem dispatch_by_priority_witness:
  "specExampleFormats \<noteq> [] \<and> plainFormats \<noteq> [] \<and> manifestFormats \<noteq> []
   \<and> ToLower ''.M3U8'' = ''.m3u8''
   \<and> calls (downloadWithExtractor exampleWorld [] ''/downloads''
               (Inr (VideoMedia ''clip'' ''v1'' specExampleFormats)) ''https://site.example/1''
               '''' True)
       = [DualStreamCall (specExampleFormats ! 1) ''/downloads/clip.mp4'']
   \<and> calls (downloadWithExtractor exampleWorld [] ''/downloads''
               (Inr (VideoMedia ''clip'' ''v1'' manifestFormats)) ''https://site.example/1''
               '''' True)
       = [HLSCall ''https://cdn.example/master.M3U8?token=1'' ''/downloads/clip.ts'' []]
   \<and> calls (downloadWithExtractor exampleWorld [] ''/downloads''
               (Inr (VideoMedia ''clip'' ''v1'' plainFormats)) ''https://site.example/1''
               '''' True)
       = [PlainCall ''https://cdn.example/v.mp4'' ''/downloads/clip.mp4'' [] True]
   \<and> isManifestURL (''https://cdn.example/master'' @ ''.M3U8'' @ ''?'' @ ''token=1'')"
proof -
  have low: "ToLower ''.M3U8'' = ''.m3u8''"
    by (simp add: ToLower_def lowerByte_def)
  have s1: "selectBestFormat specExampleFormats = Some (specExampleFormats ! 1)"
    by (simp add: selectBestFormat_def specExampleFormats_def)
  have s2: "selectBestFormat manifestFormats = Some (manifestFormats ! 0)"
    by (simp add: selectBestFormat_def manifestFormats_def)
  have s3: "selectBestFormat plainFormats = Some (plainFormats ! 0)"
    by (simp add: selectBestFormat_def plainFormats_def)
  have j1: "Join ''/downloads'' ''clip.mp4'' = ''/downloads/clip.mp4''"
    by (simp add: Join_def Clean_def HasPrefix_def)
  have j2: "Join ''/downloads'' ''clip.ts'' = ''/downloads/clip.ts''"
    by (simp add: Join_def Clean_def HasPrefix_def)
  have p1: "videoOutputPath exampleWorld ''/downloads'' '''' ''clip'' ''v1''
              (specExampleFormats ! 1) = ''/downloads/clip.mp4''"
    by (simp add: videoOutputPath_def outputPathFor_def exampleWorld_def specExampleFormats_def j1)
  have p2: "videoOutputPath exampleWorld ''/downloads'' '''' ''clip'' ''v1''
              (manifestFormats ! 0) = ''/downloads/clip.ts''"
    by (simp add: videoOutputPath_def outputPathFor_def exampleWorld_def manifestFormats_def j2)
  have p3: "videoOutputPath exampleWorld ''/downloads'' '''' ''clip'' ''v1''
              (plainFormats ! 0) = ''/downloads/clip.mp4''"
    by (simp add: videoOutputPath_def outputPathFor_def exampleWorld_def plainFormats_def j1)
  have m2: "isManifestURL (URL (manifestFormats ! 0))"
    using isManifestURL_query [OF low, of "''https://cdn.example/master''" "''token=1''"]
    by (simp add: manifestFormats_def)
  have m3: "\<not> isManifestURL (URL (plainFormats ! 0))"
    by (simp add: plainFormats_def isManifestURL_def ToLower_def lowerByte_def HasSuffix_def
        HasPrefix_def)
  have a1: "AudioURL (specExampleFormats ! 1) \<noteq> []" "AudioURL (manifestFormats ! 0) = []"
    "AudioURL (plainFormats ! 0) = []"
    by (simp_all add: specExampleFormats_def manifestFormats_def plainFormats_def)
  have ne: "specExampleFormats \<noteq> []" "plainFormats \<noteq> []" "manifestFormats \<noteq> []"
    by (simp_all add: specExampleFormats_def manifestFormats_def plainFormats_def)
  from dispatch_by_priority [of specExampleFormats exampleWorld "[]" "''/downloads''" "''clip''"
      "''v1''" "''https://site.example/1''" "''''" True _ _ "''.M3U8''"
      "''https://cdn.example/master''" "''token=1''"]
    dispatch_by_priority [of manifestFormats exampleWorld "[]" "''/downloads''" "''clip''"
      "''v1''" "''https://site.example/1''" "''''" True]
    dispatch_by_priority [of plainFormats exampleWorld "[]" "''/downloads''" "''clip''"
      "''v1''" "''https://site.example/1''" "''''" True]
  show ?thesis using ne low s1 s2 s3 p1 p2 p3 m2 m3 a1
    by (simp add: manifestFormats_def plainFormats_def)
qed

section \<open>Image jobs\<close>

lemma imageOK_D:
  "imageOK w i \<Longrightarrow> \<exists>r. downloadFile (httpFor w i) False = Some r \<and> derr r = None \<and> fileCreated r"
  by (auto simp: imageOK_def split: option.splits intro: downloadFile_success_created)

lemma imagesLoop_all_ok:
  "\<forall>j < length imgs. imageOK w (i + j) \<Longrightarrow>
   imagesLoop w jobs url outputDir title mediaID count i imgs filenames cs files =
     \<lparr>returned = Returned None,
      jobTable = updateJobFilename url
        (JoinStrings (filenames @ imagePaths outputDir title mediaID count i imgs) '', '') jobs,
      calls = cs @ imageCalls outputDir title mediaID count i imgs,
      created = files @ imagePaths outputDir title mediaID count i imgs,
      merges = []\<rparr>"
proof (induction imgs arbitrary: i filenames cs files)
  case Nil
  show ?case by simp
next
  case (Cons img rest)
  have "imageOK w (i + 0)" using Cons.prems by blast
  then obtain r where r: "downloadFile (httpFor w i) False = Some r" "derr r = None"
    "fileCreated r" using imageOK_D by fastforce
  have "\<forall>j < length rest. imageOK w (i + 1 + j)"
  proof (intro allI impI)
    fix j assume "j < length rest"
    then have "Suc j < length (img # rest)" by simp
    then have "imageOK w (i + Suc j)" using Cons.prems by blast
    then show "imageOK w (i + 1 + j)" by simp
  qed
  from Cons.IH [OF this] show ?case using r
    by (simp add: Let_def createdBy_def)
qed

lemma imagesLoop_first_failure:
  "k < length imgs \<Longrightarrow> \<forall>j < k. imageOK w (i + j) \<Longrightarrow>
   downloadFile (httpFor w (i + k)) False = Some rk \<Longrightarrow> derr rk = Some e \<Longrightarrow>
   imagesLoop w jobs url outputDir title mediaID count i imgs filenames cs files =
     \<lparr>returned = Returned (Some (ImageFailed (i + k + 1) e)),
      jobTable = jobs,
      calls = cs @ take (Suc k) (imageCalls outputDir title mediaID count i imgs),
      created = files @ take k (imagePaths outputDir title mediaID count i imgs)
                @ createdBy (Some rk) (imagePaths outputDir title mediaID count i imgs ! k),
      merges = []\<rparr>"
proof (induction imgs arbitrary: i k filenames cs files)
  case Nil
  then show ?case by simp
next
  case (Cons img rest)
  show ?case
  proof (cases k)
    case 0
    then show ?thesis using Cons.prems by (simp add: Let_def)
  next
    case (Suc k')
    have "imageOK w (i + 0)" using Cons.prems(2) Suc by blast
    then obtain r where r: "downloadFile (httpFor w i) False = Some r" "derr r = None"
      "fileCreated r" using imageOK_D by fastforce
    have k': "k' < length rest" using Cons.prems(1) Suc by simp
    have ok: "\<forall>j < k'. imageOK w (i + 1 + j)"
    proof (intro allI impI)
      fix j assume "j < k'"
      then have "Suc j < k" using Suc by simp
      then have "imageOK w (i + Suc j)" using Cons.prems(2) by blast
      then show "imageOK w (i + 1 + j)" by simp
    qed
    have rk: "downloadFile (httpFor w (i + 1 + k')) False = Some rk"
      using Cons.prems(3) Suc by simp
    from Cons.IH [OF k' ok rk Cons.prems(4)] show ?thesis using r Suc
      by (simp add: Let_def createdBy_def)
  qed
qed

lemma length_imagePaths [simp]:
  "length (imagePaths outputDir title mediaID count i imgs) = length imgs"
  by (induction imgs arbitrary: i) auto

lemma length_imageCalls [simp]:
  "length (imageCalls outputDir title mediaID count i imgs) = length imgs"
  by (induction imgs arbitrary: i) auto

lemma nth_imagePaths:
  "j < length imgs \<Longrightarrow>
     imagePaths outputDir title mediaID count i imgs ! j =
       imagePath outputDir title mediaID count (i + j) (imgs ! j)"
proof (induction imgs arbitrary: i j)
  case Nil
  then show ?case by simp
next
  case (Cons img rest)
  then show ?case by (cases j) auto
qed

lemma nth_imageCalls:
  "j < length imgs \<Longrightarrow>
     imageCalls outputDir title mediaID count i imgs ! j =
       PlainCall (imgURL (imgs ! j)) (imagePath outputDir title mediaID count (i + j) (imgs ! j))
         [] False"
proof (induction imgs arbitrary: i j)
  case Nil
  then show ?case by simp
next
  case (Cons img rest)
  then show ?case by (cases j) auto
qed

lemma imagePath_name:
  "imagePath outputDir title mediaID count i img =
     Join outputDir ((if title \<noteq> [] then title else mediaID)
        @ (if count = 1 then [] else ''_'' @ showNat (i + 1)) @ ''.'' @ imgExt img)"
  by (simp add: imagePath_def)

lemma updateJobFilename_first:
  "jobURL j = url \<Longrightarrow> \<forall>x \<in> set pre. jobURL x \<noteq> url \<Longrightarrow>
     updateJobFilename url name (pre @ j # post) = pre @ j\<lparr>Filename := name\<rparr> # post"
  by (induction pre) auto

lemma twoChunks_plain_run:
  "downloadFile twoChunks False =
     Some \<lparr>derr = None, fileCreated = True, chunksWritten = [5, 7],
           progressCalls = [], readsBegun = 3\<rparr>"
  by (simp add: downloadFile_def twoChunks_def readLoop.simps writeChunk_def ContentLength_def)

lemma single_image_run:
  "downloadWithExtractor exampleWorld jobs ''/downloads''
     (Inr (ImageMedia ''album'' ''g1'' oneImage)) ''https://site.example/album'' '''' True =
   \<lparr>returned = Returned None,
    jobTable = updateJobFilename ''https://site.example/album'' ''/downloads/album.jpg'' jobs,
    calls = [PlainCall ''https://cdn.example/a.jpg'' ''/downloads/album.jpg'' [] False],
    created = [''/downloads/album.jpg''],
    merges = []\<rparr>"
proof -
  have ok: "\<forall>j < length oneImage. imageOK exampleWorld (0 + j)"
    by (simp add: imageOK_def exampleWorld_def twoChunks_plain_run)
  have p: "imagePaths ''/downloads'' ''album'' ''g1'' (Suc 0) 0 oneImage = [''/downloads/album.jpg'']"
    by (simp add: oneImage_def imagePath_def Join_def Clean_def HasPrefix_def)
  have c: "imageCalls ''/downloads'' ''album'' ''g1'' (Suc 0) 0 oneImage =
      [PlainCall ''https://cdn.example/a.jpg'' ''/downloads/album.jpg'' [] False]"
    by (simp add: oneImage_def imagePath_def Join_def Clean_def HasPrefix_def)
  have san: "SanitizeFilename exampleWorld ''album'' = ''album''"
    by (simp add: exampleWorld_def)
  have len: "length oneImage = Suc 0" "oneImage \<noteq> []" by (simp_all add: oneImage_def)
  show ?thesis
    using imagesLoop_all_ok [OF ok, of jobs "''https://site.example/album''" "''/downloads''"
        "''album''" "''g1''" "Suc 0" "[]" "[]" "[]"]
    by (simp add: downloadWithExtractor_def san len p c)
qed

text \<open>
  C6 at a URL that is listed twice. The engine is handed the URL, not the job, and
  \<^verbatim>\<open>updateJobFilename\<close> sets the filename of the first listed job with that URL and
  stops. A successful run sets the filename of the first of the two jobs, and so does
  the second run: after both jobs have run with success the filename of the second job
  is still empty, where the claim has the joined list of its image paths.
\<close>

theorem image_filename_second_job:
  "downloadWithExtractor exampleWorld resubmittedJobs ''/downloads''
     (Inr (ImageMedia ''album'' ''g1'' oneImage)) ''https://site.example/album'' '''' True =
   \<lparr>returned = Returned None,
    jobTable =
      [\<lparr>jobID = ''j1'', jobURL = ''https://site.example/album'',
        Filename = ''/downloads/album.jpg''\<rparr>,
       \<lparr>jobID = ''j2'', jobURL = ''https://site.example/album'', Filename = ''''\<rparr>],
    calls = [PlainCall ''https://cdn.example/a.jpg'' ''/downloads/album.jpg'' [] False],
    created = [''/downloads/album.jpg''],
    merges = []\<rparr>
   \<and> downloadWithExtractor exampleWorld afterOneRun ''/downloads''
     (Inr (ImageMedia ''album'' ''g1'' oneImage)) ''https://site.example/album'' '''' True =
   \<lparr>returned = Returned None,
    jobTable =
      [\<lparr>jobID = ''j1'', jobURL = ''https://site.example/album'',
        Filename = ''/downloads/album.jpg''\<rparr>,
       \<lparr>jobID = ''j2'', jobURL = ''https://site.example/album'', Filename = ''''\<rparr>],
    calls = [PlainCall ''https://cdn.example/a.jpg'' ''/downloads/album.jpg'' [] False],
    created = [''/downloads/album.jpg''],
    merges = []\<rparr>"
  by (simp add: single_image_run resubmittedJobs_def afterOneRun_def)

text \<open>
  The image loop. For an image descriptor with at least one image, image \<open>i\<close> (0-based) is fetched by
  one \<^verbatim>\<open>downloadFile\<close> call to the path built from the base name (the sanitized title,
  or the ID when that is empty), with the suffix \<open>_(i+1)\<close> exactly when there is more than
  one image. If every download succeeds, the calls are those of all images in list order,
  the job returns success, every path is on disk, and the filename of the first listed job
  with the URL, which is the running job unless an earlier listed job has the same URL,
  is the paths joined by a comma and a space; no other job is changed. If image \<open>k\<close> is the first whose download fails, the calls are
  those of images \<open>0\<close> to \<open>k\<close> in order and no more, the job returns the error naming
  image \<open>k+1\<close>, the filename is not set, and the files of the images before \<open>k\<close> stay on
  disk.
\<close>

theorem image_jobs_sequential:
  assumes "images \<noteq> []"
  shows "(\<forall>i < length images.
            imagePaths outputDir (SanitizeFilename w title) mediaID (length images) 0 images ! i =
              Join outputDir
                ((if SanitizeFilename w title \<noteq> [] then SanitizeFilename w title else mediaID)
                 @ (if length images = 1 then [] else ''_'' @ showNat (i + 1))
                 @ ''.'' @ imgExt (images ! i))
          \<and> imageCalls outputDir (SanitizeFilename w title) mediaID (length images) 0 images ! i =
              PlainCall (imgURL (images ! i))
                (imagePaths outputDir (SanitizeFilename w title) mediaID (length images) 0 images ! i)
                [] False)
    \<and> ((\<forall>i < length images. imageOK w i) \<longrightarrow>
          downloadWithExtractor w jobs outputDir (Inr (ImageMedia title mediaID images)) url
            filename hp =
          \<lparr>returned = Returned None,
           jobTable = updateJobFilename url
             (JoinStrings
                (imagePaths outputDir (SanitizeFilename w title) mediaID (length images) 0 images)
                '', '') jobs,
           calls = imageCalls outputDir (SanitizeFilename w title) mediaID (length images) 0 images,
           created = imagePaths outputDir (SanitizeFilename w title) mediaID (length images) 0 images,
           merges = []\<rparr>
          \<and> (\<forall>pre j post. jobs = pre @ j # post \<and> jobURL j = url
                \<and> (\<forall>x \<in> set pre. jobURL x \<noteq> url) \<longrightarrow>
                updateJobFilename url
                  (JoinStrings
                     (imagePaths outputDir (SanitizeFilename w title) mediaID (length images) 0
                        images) '', '') jobs
                = pre @ j\<lparr>Filename := JoinStrings
                     (imagePaths outputDir (SanitizeFilename w title) mediaID (length images) 0
                        images) '', ''\<rparr> # post))
    \<and> (\<forall>k rk e. k < length images \<and> (\<forall>j < k. imageOK w j)
          \<and> downloadFile (httpFor w k) False = Some rk \<and> derr rk = Some e \<longrightarrow>
          downloadWithExtractor w jobs outputDir (Inr (ImageMedia title mediaID images)) url
            filename hp =
          \<lparr>returned = Returned (Some (ImageFailed (k + 1) e)),
           jobTable = jobs,
           calls = take (Suc k)
             (imageCalls outputDir (SanitizeFilename w title) mediaID (length images) 0 images),
           created = take k
             (imagePaths outputDir (SanitizeFilename w title) mediaID (length images) 0 images)
             @ createdBy (Some rk)
                 (imagePaths outputDir (SanitizeFilename w title) mediaID (length images) 0 images
                    ! k),
           merges = []\<rparr>)"
proof (intro conjI allI impI)
  fix i assume "i < length images"
  then show "imagePaths outputDir (SanitizeFilename w title) mediaID (length images) 0 images ! i =
              Join outputDir
                ((if SanitizeFilename w title \<noteq> [] then SanitizeFilename w title else mediaID)
                 @ (if length images = 1 then [] else ''_'' @ showNat (i + 1))
                 @ ''.'' @ imgExt (images ! i))"
    by (simp add: nth_imagePaths imagePath_name)
next
  fix i assume "i < length images"
  then show "imageCalls outputDir (SanitizeFilename w title) mediaID (length images) 0 images ! i =
              PlainCall (imgURL (images ! i))
                (imagePaths outputDir (SanitizeFilename w title) mediaID (length images) 0 images ! i)
                [] False"
    by (simp add: nth_imagePaths nth_imageCalls)
next
  assume "\<forall>i < length images. imageOK w i"
  then have "\<forall>j < length images. imageOK w (0 + j)" by simp
  from imagesLoop_all_ok [OF this]
  show "downloadWithExtractor w jobs outputDir (Inr (ImageMedia title mediaID images)) url
            filename hp =
          \<lparr>returned = Returned None,
           jobTable = updateJobFilename url
             (JoinStrings
                (imagePaths outputDir (SanitizeFilename w title) mediaID (length images) 0 images)
                '', '') jobs,
           calls = imageCalls outputDir (SanitizeFilename w title) mediaID (length images) 0 images,
           created = imagePaths outputDir (SanitizeFilename w title) mediaID (length images) 0 images,
           merges = []\<rparr>"
    using assms by (simp add: downloadWithExtractor_def)
next
  fix pre j post
  assume "jobs = pre @ j # post \<and> jobURL j = url \<and> (\<forall>x \<in> set pre. jobURL x \<noteq> url)"
  then show "updateJobFilename url
                  (JoinStrings
                     (imagePaths outputDir (SanitizeFilename w title) mediaID (length images) 0
                        images) '', '') jobs
                = pre @ j\<lparr>Filename := JoinStrings
                     (imagePaths outputDir (SanitizeFilename w title) mediaID (length images) 0
                        images) '', ''\<rparr> # post"
    by (simp add: updateJobFilename_first)
next
  fix k rk e
  assume a: "k < length images \<and> (\<forall>j < k. imageOK w j)
          \<and> downloadFile (httpFor w k) False = Some rk \<and> derr rk = Some e"
  then have k: "k < length images" and ok: "\<forall>j < k. imageOK w (0 + j)"
    and rk: "downloadFile (httpFor w (0 + k)) False = Some rk" and e: "derr rk = Some e"
    by simp_all
  from imagesLoop_first_failure [OF k ok rk e]
  show "downloadWithExtractor w jobs outputDir (Inr (ImageMedia title mediaID images)) url
            filename hp =
          \<lparr>returned = Returned (Some (ImageFailed (k + 1) e)),
           jobTable = jobs,
           calls = take (Suc k)
             (imageCalls outputDir (SanitizeFilename w title) mediaID (length images) 0 images),
           created = take k
             (imagePaths outputDir (SanitizeFilename w title) mediaID (length images) 0 images)
             @ createdBy (Some rk)
                 (imagePaths outputDir (SanitizeFilename w title) mediaID (length images) 0 images
                    ! k),
           merges = []\<rparr>"
    using assms by (simp add: downloadWithExtractor_def)
qed

lemma album_paths:
  "imagePaths ''/downloads'' ''album'' ''g1'' 3 0 threeImages =
     [''/downloads/album_1.jpg'', ''/downloads/album_2.png'', ''/downloads/album_3.jpg'']"
  by (simp add: threeImages_def imagePath_def Join_def Clean_def HasPrefix_def)

lemma album_calls:
  "imageCalls ''/downloads'' ''album'' ''g1'' 3 0 threeImages =
     [PlainCall ''https://cdn.example/a.jpg'' ''/downloads/album_1.jpg'' [] False,
      PlainCall ''https://cdn.example/b.png'' ''/downloads/album_2.png'' [] False,
      PlainCall ''https://cdn.example/c.jpg'' ''/downloads/album_3.jpg'' [] False]"
  by (simp add: threeImages_def imagePath_def Join_def Clean_def HasPrefix_def)

theorem image_jobs_sequential_witness:
  "threeImages \<noteq> [] \<and> oneImage \<noteq> []
   \<and> imageOK exampleWorld 0 \<and> imageOK exampleWorld 1 \<and> imageOK exampleWorld 2
   \<and> downloadWithExtractor exampleWorld albumJobs ''/downloads''
        (Inr (ImageMedia ''album'' ''g1'' threeImages)) ''https://site.example/album'' '''' True =
       \<lparr>returned = Returned None,
        jobTable = [\<lparr>jobID = ''j1'', jobURL = ''https://site.example/album'',
                     Filename = ''/downloads/album_1.jpg, /downloads/album_2.png, /downloads/album_3.jpg''\<rparr>],
        calls = [PlainCall ''https://cdn.example/a.jpg'' ''/downloads/album_1.jpg'' [] False,
                 PlainCall ''https://cdn.example/b.png'' ''/downloads/album_2.png'' [] False,
                 PlainCall ''https://cdn.example/c.jpg'' ''/downloads/album_3.jpg'' [] False],
        created = [''/downloads/album_1.jpg'', ''/downloads/album_2.png'',
                   ''/downloads/album_3.jpg''],
        merges = []\<rparr>
   \<and> imageOK secondFails 0
   \<and> downloadFile (httpFor secondFails 1) False = Some (failedBeforeBody (BadStatus 404))
   \<and> downloadWithExtractor secondFails albumJobs ''/downloads''
        (Inr (ImageMedia ''album'' ''g1'' threeImages)) ''https://site.example/album'' '''' True =
       \<lparr>returned = Returned (Some (ImageFailed 2 (BadStatus 404))),
        jobTable = albumJobs,
        calls = [PlainCall ''https://cdn.example/a.jpg'' ''/downloads/album_1.jpg'' [] False,
                 PlainCall ''https://cdn.example/b.png'' ''/downloads/album_2.png'' [] False],
        created = [''/downloads/album_1.jpg''],
        merges = []\<rparr>
   \<and> calls (downloadWithExtractor exampleWorld albumJobs ''/downloads''
        (Inr (ImageMedia ''album'' ''g1'' oneImage)) ''https://site.example/album'' '''' True) =
       [PlainCall ''https://cdn.example/a.jpg'' ''/downloads/album.jpg'' [] False]"
proof -
  have ne: "threeImages \<noteq> []" "oneImage \<noteq> []"
    by (simp_all add: threeImages_def oneImage_def)
  have len: "length threeImages = 3" "length oneImage = 1"
    by (simp_all add: threeImages_def oneImage_def)
  have okAll: "imageOK exampleWorld i" for i
    by (simp add: imageOK_def exampleWorld_def twoChunks_plain_run)
  have ok0: "imageOK secondFails 0"
    by (simp add: imageOK_def secondFails_def exampleWorld_def twoChunks_plain_run)
  have bad: "downloadFile (httpFor secondFails 1) False = Some (failedBeforeBody (BadStatus 404))"
    by (simp add: secondFails_def exampleWorld_def notFound_run)
  have san: "SanitizeFilename exampleWorld ''album'' = ''album''"
    "SanitizeFilename secondFails ''album'' = ''album''"
    by (simp_all add: secondFails_def exampleWorld_def)
  have one: "imageCalls ''/downloads'' ''album'' ''g1'' 1 0 oneImage =
      [PlainCall ''https://cdn.example/a.jpg'' ''/downloads/album.jpg'' [] False]"
    by (simp add: oneImage_def imagePath_def Join_def Clean_def HasPrefix_def)
  have all3: "\<forall>i < length threeImages. imageOK exampleWorld i" using okAll by simp
  have all1: "\<forall>i < length oneImage. imageOK exampleWorld i" using okAll by simp
  have pre1: "(1::nat) < length threeImages \<and> (\<forall>j < 1. imageOK secondFails j)
      \<and> downloadFile (httpFor secondFails 1) False = Some (failedBeforeBody (BadStatus 404))
      \<and> derr (failedBeforeBody (BadStatus 404)) = Some (BadStatus 404)"
    using ok0 bad len by (simp add: failedBeforeBody_def)
  from image_jobs_sequential [OF ne(1), of "''/downloads''" exampleWorld "''album''" "''g1''"
      albumJobs "''https://site.example/album''" "''''" True]
  have A: "downloadWithExtractor exampleWorld albumJobs ''/downloads''
        (Inr (ImageMedia ''album'' ''g1'' threeImages)) ''https://site.example/album'' '''' True =
       \<lparr>returned = Returned None,
        jobTable = [\<lparr>jobID = ''j1'', jobURL = ''https://site.example/album'',
                     Filename = ''/downloads/album_1.jpg, /downloads/album_2.png, /downloads/album_3.jpg''\<rparr>],
        calls = [PlainCall ''https://cdn.example/a.jpg'' ''/downloads/album_1.jpg'' [] False,
                 PlainCall ''https://cdn.example/b.png'' ''/downloads/album_2.png'' [] False,
                 PlainCall ''https://cdn.example/c.jpg'' ''/downloads/album_3.jpg'' [] False],
        created = [''/downloads/album_1.jpg'', ''/downloads/album_2.png'',
                   ''/downloads/album_3.jpg''],
        merges = []\<rparr>"
    using all3 by (simp add: san len album_paths album_calls albumJobs_def)
  from image_jobs_sequential [OF ne(1), of "''/downloads''" secondFails "''album''" "''g1''"
      albumJobs "''https://site.example/album''" "''''" True]
  have "\<forall>k rk e. k < length threeImages \<and> (\<forall>j < k. imageOK secondFails j)
          \<and> downloadFile (httpFor secondFails k) False = Some rk \<and> derr rk = Some e \<longrightarrow>
          downloadWithExtractor secondFails albumJobs ''/downloads''
            (Inr (ImageMedia ''album'' ''g1'' threeImages)) ''https://site.example/album'' '''' True =
          \<lparr>returned = Returned (Some (ImageFailed (k + 1) e)),
           jobTable = albumJobs,
           calls = take (Suc k) (imageCalls ''/downloads'' ''album'' ''g1'' 3 0 threeImages),
           created = take k (imagePaths ''/downloads'' ''album'' ''g1'' 3 0 threeImages)
             @ createdBy (Some rk) (imagePaths ''/downloads'' ''album'' ''g1'' 3 0 threeImages ! k),
           merges = []\<rparr>"
    by (simp add: san len)
  from this [rule_format, OF pre1]
  have B: "downloadWithExtractor secondFails albumJobs ''/downloads''
        (Inr (ImageMedia ''album'' ''g1'' threeImages)) ''https://site.example/album'' '''' True =
       \<lparr>returned = Returned (Some (ImageFailed 2 (BadStatus 404))),
        jobTable = albumJobs,
        calls = [PlainCall ''https://cdn.example/a.jpg'' ''/downloads/album_1.jpg'' [] False,
                 PlainCall ''https://cdn.example/b.png'' ''/downloads/album_2.png'' [] False],
        created = [''/downloads/album_1.jpg''],
        merges = []\<rparr>"
    by (simp add: album_paths album_calls createdBy_def failedBeforeBody_def)
  from image_jobs_sequential [OF ne(2), of "''/downloads''" exampleWorld "''album''" "''g1''"
      albumJobs "''https://site.example/album''" "''''" True]
  have C: "calls (downloadWithExtractor exampleWorld albumJobs ''/downloads''
        (Inr (ImageMedia ''album'' ''g1'' oneImage)) ''https://site.example/album'' '''' True) =
       [PlainCall ''https://cdn.example/a.jpg'' ''/downloads/album.jpg'' [] False]"
    using all1 one by (simp add: san len)
  show ?thesis using ne okAll A ok0 bad B C by simp
qed

section \<open>File names that keep their extension through Join\<close>

lemma HasSuffix_iff: "HasSuffix s suf \<longleftrightarrow> (\<exists>a. s = a @ suf)"
proof
  assume "HasSuffix s suf"
  then have "s = take (length s - length suf) s @ suf"
    by (metis HasSuffix_def append_take_drop_id)
  then show "\<exists>a. s = a @ suf" by blast
next
  assume "\<exists>a. s = a @ suf"
  then show "HasSuffix s suf" by (auto simp: HasSuffix_append)
qed

lemma HasPrefix_iff: "HasPrefix s pre \<longleftrightarrow> (\<exists>rest. s = pre @ rest)"
proof
  assume "HasPrefix s pre"
  then have "s = pre @ drop (length pre) s"
    by (metis HasPrefix_def append_take_drop_id)
  then show "\<exists>rest. s = pre @ rest" by blast
next
  assume "\<exists>rest. s = pre @ rest"
  then show "HasPrefix s pre" by (auto simp: HasPrefix_append)
qed

lemma splitSep_ne [simp]: "splitSep s \<noteq> []"
  by (induction s) (auto split: list.splits)

lemma splitSep_noslash: "CHR ''/'' \<notin> set e \<Longrightarrow> splitSep e = [e]"
  by (induction e) auto

lemma splitSep_append_noslash:
  "CHR ''/'' \<notin> set e \<Longrightarrow>
     splitSep (a @ e) = butlast (splitSep a) @ [last (splitSep a) @ e]"
proof (induction a)
  case Nil
  then show ?case by (simp add: splitSep_noslash)
next
  case (Cons c cs)
  show ?case
  proof (cases "c = CHR ''/''")
    case True
    then show ?thesis using Cons by simp
  next
    case False
    obtain x xs where s: "splitSep cs = x # xs" by (cases "splitSep cs") auto
    show ?thesis
    proof (cases xs)
      case Nil
      then show ?thesis using Cons False s by simp
    next
      case (Cons y ys)
      then show ?thesis using Cons.IH [OF Cons.prems] False s by simp
    qed
  qed
qed

lemma cleanLoop_append:
  "cleanLoop rooted (xs @ ys) out = cleanLoop rooted ys (cleanLoop rooted xs out)"
  by (induction xs arbitrary: out) auto

lemma cleanLoop_snoc_plain:
  "c \<noteq> [] \<Longrightarrow> c \<noteq> ''.'' \<Longrightarrow> c \<noteq> ''..'' \<Longrightarrow>
     cleanLoop rooted (xs @ [c]) out = cleanLoop rooted xs out @ [c]"
  by (simp add: cleanLoop_append)

lemma JoinStrings_snoc: "\<exists>b. JoinStrings (out @ [c]) sep = b @ c"
proof (induction out)
  case Nil
  show ?case by simp
next
  case (Cons x out)
  then obtain b where b: "JoinStrings (out @ [c]) sep = b @ c" by blast
  obtain y ys where "out @ [c] = y # ys" by (cases "out @ [c]") auto
  then have "JoinStrings ((x # out) @ [c]) sep = (x @ sep @ b) @ c"
    using b by simp
  then show ?case by blast
qed

lemma Clean_keeps_suffix:
  assumes "e \<noteq> []" and "last e \<noteq> CHR ''.''" and "CHR ''/'' \<notin> set e"
  shows "\<exists>b. Clean (a @ e) = b @ e"
proof -
  let ?c = "last (splitSep a) @ e"
  have c: "?c \<noteq> []" "?c \<noteq> ''.''" "?c \<noteq> ''..''"
  proof -
    show "?c \<noteq> []" using assms(1) by simp
    have l: "last ?c = last e" using assms(1) by simp
    show "?c \<noteq> ''.''" using l assms(2) by (metis last.simps)
    show "?c \<noteq> ''..''" using l assms(2) by (metis last.simps list.discI)
  qed
  have split: "splitSep (a @ e) = butlast (splitSep a) @ [?c]"
    using assms(3) by (rule splitSep_append_noslash)
  have loop: "cleanLoop r (splitSep (a @ e)) [] = cleanLoop r (butlast (splitSep a)) [] @ [?c]"
    for r using c by (simp add: split cleanLoop_snoc_plain)
  obtain b where b: "JoinStrings (cleanLoop (HasPrefix (a @ e) ''/'') (butlast (splitSep a)) [] @ [?c]) ''/''
      = b @ ?c" using JoinStrings_snoc by blast
  have ne: "a @ e \<noteq> []" using assms(1) by simp
  show ?thesis
  proof (cases "HasPrefix (a @ e) ''/''")
    case True
    then have "Clean (a @ e) = (''/'' @ b @ last (splitSep a)) @ e"
      using ne b by (simp add: Clean_def loop Let_def)
    then show ?thesis by blast
  next
    case False
    then have "Clean (a @ e) = (b @ last (splitSep a)) @ e"
      using assms(1) b by (simp add: Clean_def loop Let_def)
    then show ?thesis by blast
  qed
qed

lemma Join_keeps_suffix:
  assumes "e \<noteq> []" and "last e \<noteq> CHR ''.''" and "CHR ''/'' \<notin> set e"
  shows "\<exists>b. Join d (a @ e) = b @ e"
proof (cases "d = []")
  case True
  then show ?thesis using assms Clean_keeps_suffix [OF assms, of a] by (simp add: Join_def)
next
  case False
  have "\<exists>b. Clean ((d @ ''/'' @ a) @ e) = b @ e" using assms by (rule Clean_keeps_suffix)
  then show ?thesis using False by (simp add: Join_def)
qed

lemma lower_ts:
  assumes "ToLower e = ''.ts''"
  shows "e \<noteq> [] \<and> last e \<noteq> CHR ''.'' \<and> CHR ''/'' \<notin> set e"
proof -
  from assms obtain c1 c2 c3 where e: "e = [c1, c2, c3]"
    and l: "lowerByte c1 = CHR ''.''" "lowerByte c2 = CHR ''t''" "lowerByte c3 = CHR ''s''"
    by (auto simp: ToLower_def)
  have dot: "lowerByte CHR ''.'' = CHR ''.''" and slash: "lowerByte CHR ''/'' = CHR ''/''"
    by (simp_all add: lowerByte_def)
  have "c3 \<noteq> CHR ''.''" using l(3) dot by auto
  moreover have "c1 \<noteq> CHR ''/''" "c2 \<noteq> CHR ''/''" "c3 \<noteq> CHR ''/''"
    using l slash by auto
  ultimately show ?thesis using e by simp
qed

lemma Join_ts_any_case:
  assumes "HasSuffix (ToLower name) ''.ts''"
  shows "HasSuffix (ToLower (Join d name)) ''.ts''"
proof -
  let ?n = "length name - length ''.ts''"
  let ?a = "take ?n name" and ?e = "drop ?n name"
  have low: "ToLower ?e = ''.ts''"
    using assms unfolding HasSuffix_def ToLower_def by (simp add: drop_map)
  note p = lower_ts [OF low]
  have "\<exists>b. Join d (?a @ ?e) = b @ ?e"
    by (rule Join_keeps_suffix [OF conjunct1 [OF p] conjunct1 [OF conjunct2 [OF p]]
          conjunct2 [OF conjunct2 [OF p]]])
  then obtain b where "Join d name = b @ ?e" by auto
  then have "ToLower (Join d name) = ToLower b @ ''.ts''"
    using low by (simp add: ToLower_append)
  then show ?thesis by (simp add: HasSuffix_append)
qed

lemma Join_ts_exact:
  "HasSuffix (Join d (a @ ''.ts'')) ''.ts''"
proof -
  have "\<exists>b. Join d (a @ ''.ts'') = b @ ''.ts''"
    by (rule Join_keeps_suffix) simp_all
  then show ?thesis by (auto simp: HasSuffix_append)
qed

lemma ts_not_manifest:
  assumes "HasSuffix (ToLower p) ''.ts''"
  shows "\<not> HasSuffix (ToLower p) ''.m3u8''" and "\<not> HasSuffix p ''.m3u8''"
proof -
  have l: "last (ToLower p) = CHR ''s''" "p \<noteq> []"
    using assms by (auto simp: HasSuffix_iff ToLower_def)
  show "\<not> HasSuffix (ToLower p) ''.m3u8''"
    using l by (auto simp: HasSuffix_iff)
  show "\<not> HasSuffix p ''.m3u8''"
  proof
    assume "HasSuffix p ''.m3u8''"
    then obtain a where "p = a @ ''.m3u8''" by (auto simp: HasSuffix_iff)
    then have "last (ToLower p) = CHR ''8''" by (simp add: ToLower_def lowerByte_def)
    then show False using l by simp
  qed
qed

lemma outputPathFor_ts:
  "HasSuffix (ToLower (outputPathFor w outputDir filename title mediaID ''ts'')) ''.ts''"
proof (cases "filename = []")
  case True
  then show ?thesis
    using Join_ts_exact [of outputDir "SanitizeFilename w title"]
      Join_ts_exact [of outputDir mediaID]
    by (auto simp: outputPathFor_def Let_def HasSuffix_iff ToLower_append)
       (auto simp: ToLower_def lowerByte_def)
next
  case False
  show ?thesis
  proof (cases "HasSuffix (ToLower (SanitizeFilename w filename)) ''.ts''")
    case True
    then show ?thesis using False Join_ts_any_case [OF True, of outputDir]
      by (simp add: outputPathFor_def Let_def)
  next
    case nots: False
    have "HasSuffix (ToLower (SanitizeFilename w filename @ ''.ts'')) ''.ts''"
      by (simp add: ToLower_append HasSuffix_iff) (simp add: ToLower_def lowerByte_def)
    from Join_ts_any_case [OF this, of outputDir] show ?thesis using False nots
      by (simp add: outputPathFor_def Let_def)
  qed
qed

lemma outputPathFor_ts_appended:
  assumes "filename = [] \<or> \<not> HasSuffix (ToLower (SanitizeFilename w filename)) ''.ts''"
  shows "HasSuffix (outputPathFor w outputDir filename title mediaID ''ts'') ''.ts''"
  using assms Join_ts_exact [of outputDir "SanitizeFilename w title"]
    Join_ts_exact [of outputDir mediaID]
    Join_ts_exact [of outputDir "SanitizeFilename w filename"]
  by (auto simp: outputPathFor_def Let_def)

lemma lowerByte_dot: "lowerByte c = CHR ''.'' \<Longrightarrow> c = CHR ''.''"
  by (auto simp: lowerByte_def split: if_splits)

lemma lowerByte_not_sep:
  "lowerByte c = CHR ''t'' \<or> lowerByte c = CHR ''s'' \<Longrightarrow> c \<noteq> CHR ''.'' \<and> c \<noteq> CHR ''/''"
  by (auto simp: lowerByte_def)

lemma ext_of_ts_path:
  assumes "HasSuffix (ToLower p) ''.ts''"
  shows "ToLower (filepathExt p) = ''.ts''"
proof -
  let ?n = "length p - length ''.ts''"
  have low: "ToLower (drop ?n p) = ''.ts''"
    using assms unfolding HasSuffix_def ToLower_def by (simp add: drop_map)
  then obtain c1 c2 c3 where e: "drop ?n p = [c1, c2, c3]"
    and l: "lowerByte c1 = CHR ''.''" "lowerByte c2 = CHR ''t''" "lowerByte c3 = CHR ''s''"
    by (auto simp: ToLower_def)
  have c1: "c1 = CHR ''.''" using l(1) by (rule lowerByte_dot)
  have c23: "CHR ''.'' \<notin> set [c2, c3]" "CHR ''/'' \<notin> set [c2, c3]"
    using lowerByte_not_sep [of c2] lowerByte_not_sep [of c3] l by auto
  have "p = take ?n p @ ''.'' @ [c2, c3]"
    using e c1 by (metis append_Cons append_Nil append_take_drop_id)
  then have "filepathExt p = ''.'' @ [c2, c3]"
    using filepathExt_dot [OF c23, of "take ?n p"] by simp
  then show ?thesis using l by (simp add: ToLower_def) (simp add: lowerByte_def)
qed

text \<open>
  C8, as stated, fails on the letter case: for a requested filename \<^verbatim>\<open>clip.TS\<close> and a
  format declaring \<^verbatim>\<open>m3u8\<close>, the resolved output path is \<^verbatim>\<open>/downloads/clip.TS\<close>, whose
  extension is \<^verbatim>\<open>.TS\<close> and not \<^verbatim>\<open>.ts\<close>.
\<close>

theorem manifest_extension_counterexample:
  "selectBestFormat manifestFormats = Some (manifestFormats ! 0)
   \<and> Ext (manifestFormats ! 0) = ''m3u8''
   \<and> calls (downloadWithExtractor exampleWorld [] ''/downloads''
              (Inr (VideoMedia ''clip'' ''v1'' manifestFormats)) ''https://site.example/1''
              ''clip.TS'' True)
       = [HLSCall ''https://cdn.example/master.M3U8?token=1'' ''/downloads/clip.TS'' []]
   \<and> filepathExt ''/downloads/clip.TS'' = ''.TS''"
proof -
  have s2: "selectBestFormat manifestFormats = Some (manifestFormats ! 0)"
    by (simp add: selectBestFormat_def manifestFormats_def)
  have low: "ToLower ''.M3U8'' = ''.m3u8''"
    by (simp add: ToLower_def lowerByte_def)
  have m2: "isManifestURL (URL (manifestFormats ! 0))"
    using isManifestURL_query [OF low, of "''https://cdn.example/master''" "''token=1''"]
    by (simp add: manifestFormats_def)
  have j: "Join ''/downloads'' ''clip.TS'' = ''/downloads/clip.TS''"
    by (simp add: Join_def Clean_def HasPrefix_def)
  have suf: "HasSuffix (ToLower ''clip.TS'') ''.ts''"
    by (simp add: HasSuffix_def ToLower_def lowerByte_def)
  have p: "videoOutputPath exampleWorld ''/downloads'' ''clip.TS'' ''clip'' ''v1''
             (manifestFormats ! 0) = ''/downloads/clip.TS''"
    using suf by (simp add: videoOutputPath_def outputPathFor_def exampleWorld_def
        manifestFormats_def j)
  have x: "filepathExt ''/downloads/clip.TS'' = ''.TS''"
    by (simp add: filepathExt_def)
  show ?thesis using s2 m2 p x calls_video [OF s2, of exampleWorld "[]" "''/downloads''"
      "''clip''" "''v1''" "''https://site.example/1''" "''clip.TS''" True]
    by (simp add: manifestFormats_def)
qed

text \<open>
  C8, amended. For a video download whose selected format declares \<^verbatim>\<open>m3u8\<close>, the
  resolved output path, the one handed to the downloader, has the extension \<^verbatim>\<open>.ts\<close>
  up to letter case and never ends in \<^verbatim>\<open>.m3u8\<close> in any letter case. It ends in
  \<^verbatim>\<open>.ts\<close> exactly unless a requested filename already ended in \<^verbatim>\<open>.ts\<close> in some
  letter case, which is kept as typed.
\<close>

theorem manifest_extension_becomes_ts:
  "selectBestFormat formats = Some f \<and> Ext f = ''m3u8'' \<longrightarrow>
     ToLower (filepathExt (videoOutputPath w outputDir filename title mediaID f)) = ''.ts''
   \<and> HasSuffix (ToLower (videoOutputPath w outputDir filename title mediaID f)) ''.ts''
   \<and> \<not> HasSuffix (videoOutputPath w outputDir filename title mediaID f) ''.m3u8''
   \<and> \<not> HasSuffix (ToLower (videoOutputPath w outputDir filename title mediaID f)) ''.m3u8''
   \<and> (filename = [] \<or> \<not> HasSuffix (ToLower (SanitizeFilename w filename)) ''.ts'' \<longrightarrow>
        HasSuffix (videoOutputPath w outputDir filename title mediaID f) ''.ts'')
   \<and> (\<exists>c. calls (downloadWithExtractor w jobs outputDir
                    (Inr (VideoMedia title mediaID formats)) url filename hp) = [c]
          \<and> callPath c = videoOutputPath w outputDir filename title mediaID f)"
proof (intro impI)
  assume a: "selectBestFormat formats = Some f \<and> Ext f = ''m3u8''"
  then have sel: "selectBestFormat formats = Some f" and ext: "Ext f = ''m3u8''" by simp_all
  have p: "videoOutputPath w outputDir filename title mediaID f =
      outputPathFor w outputDir filename title mediaID ''ts''"
    using ext by (simp add: videoOutputPath_def)
  have ts: "HasSuffix (ToLower (videoOutputPath w outputDir filename title mediaID f)) ''.ts''"
    unfolding p by (rule outputPathFor_ts)
  have exact: "filename = [] \<or> \<not> HasSuffix (ToLower (SanitizeFilename w filename)) ''.ts'' \<longrightarrow>
        HasSuffix (videoOutputPath w outputDir filename title mediaID f) ''.ts''"
    unfolding p using outputPathFor_ts_appended by blast
  have one: "\<exists>c. calls (downloadWithExtractor w jobs outputDir
                    (Inr (VideoMedia title mediaID formats)) url filename hp) = [c]
          \<and> callPath c = videoOutputPath w outputDir filename title mediaID f"
    using calls_video [OF sel, of w jobs outputDir title mediaID url filename hp] by simp
  show "ToLower (filepathExt (videoOutputPath w outputDir filename title mediaID f)) = ''.ts''
   \<and> HasSuffix (ToLower (videoOutputPath w outputDir filename title mediaID f)) ''.ts''
   \<and> \<not> HasSuffix (videoOutputPath w outputDir filename title mediaID f) ''.m3u8''
   \<and> \<not> HasSuffix (ToLower (videoOutputPath w outputDir filename title mediaID f)) ''.m3u8''
   \<and> (filename = [] \<or> \<not> HasSuffix (ToLower (SanitizeFilename w filename)) ''.ts'' \<longrightarrow>
        HasSuffix (videoOutputPath w outputDir filename title mediaID f) ''.ts'')
   \<and> (\<exists>c. calls (downloadWithExtractor w jobs outputDir
                    (Inr (VideoMedia title mediaID formats)) url filename hp) = [c]
          \<and> callPath c = videoOutputPath w outputDir filename title mediaID f)"
    using ts ext_of_ts_path [OF ts] ts_not_manifest [OF ts] exact one by blast
qed

theorem manifest_extension_becomes_ts_witness:
  "selectBestFormat manifestFormats = Some (manifestFormats ! 0)
   \<and> Ext (manifestFormats ! 0) = ''m3u8''
   \<and> videoOutputPath exampleWorld ''/downloads'' '''' ''clip'' ''v1'' (manifestFormats ! 0)
       = ''/downloads/clip.ts''
   \<and> HasSuffix ''/downloads/clip.ts'' ''.ts''
   \<and> \<not> HasSuffix ''/downloads/clip.ts'' ''.m3u8''
   \<and> filepathExt ''/downloads/clip.ts'' = ''.ts''"
proof -
  have s2: "selectBestFormat manifestFormats = Some (manifestFormats ! 0)"
    by (simp add: selectBestFormat_def manifestFormats_def)
  have e: "Ext (manifestFormats ! 0) = ''m3u8''"
    by (simp add: manifestFormats_def)
  have j2: "Join ''/downloads'' ''clip.ts'' = ''/downloads/clip.ts''"
    by (simp add: Join_def Clean_def HasPrefix_def)
  have p2: "videoOutputPath exampleWorld ''/downloads'' '''' ''clip'' ''v1''
              (manifestFormats ! 0) = ''/downloads/clip.ts''"
    by (simp add: videoOutputPath_def outputPathFor_def exampleWorld_def manifestFormats_def j2)
  have x: "filepathExt ''/downloads/clip.ts'' = ''.ts''"
    by (simp add: filepathExt_def)
  from manifest_extension_becomes_ts [of manifestFormats "manifestFormats ! 0" exampleWorld
      "''/downloads''" "''''" "''clip''" "''v1''"]
  show ?thesis using s2 e p2 x by simp
qed

section \<open>The prefix guard of the file endpoint\<close>

lemma handleFileDownload_guard:
  assumes "filePath \<noteq> []" and "Abs cwd filePath = Some p"
  shows "handleFileDownload cwd stat outputDir filePath =
     (if HasPrefix p (absOutputDirOf cwd outputDir) then
        (if stat p = StatNotExist then NotFound ''file not found'' else ServeFile p (Base p))
      else Forbidden ''access denied: file outside output directory'')"
  using assms by (simp add: handleFileDownload_def absOutputDirOf_def Let_def)

lemma handleFileDownload_served:
  assumes "handleFileDownload cwd stat outputDir filePath = ServeFile p name"
  shows "Abs cwd filePath = Some p \<and> HasPrefix p (absOutputDirOf cwd outputDir)
       \<and> name = Base p"
  using assms
  by (auto simp: handleFileDownload_def absOutputDirOf_def Let_def
           split: if_splits option.splits)

text \<open>
  C10. A file is served only when the absolute form of the requested path begins,
  character by character, with the absolute form of the output directory. Conversely
  every non-empty path whose absolute form begins with that string passes the guard (the
  file is served unless it does not exist), and every other such path is answered with
  the forbidden response. The comparison does not look at path elements: with output
  directory \<^verbatim>\<open>/downloads\<close>, the file \<^verbatim>\<open>/downloads-private/key.pem\<close> of a sibling
  directory is served.
\<close>

theorem file_download_prefix_guard:
  "(\<forall>p name. handleFileDownload cwd stat outputDir filePath = ServeFile p name \<longrightarrow>
       Abs cwd filePath = Some p \<and> (\<exists>rest. p = absOutputDirOf cwd outputDir @ rest))
   \<and> (\<forall>p. filePath \<noteq> [] \<and> Abs cwd filePath = Some p \<longrightarrow>
         handleFileDownload cwd stat outputDir filePath =
           (if \<exists>rest. p = absOutputDirOf cwd outputDir @ rest then
              (if stat p = StatNotExist then NotFound ''file not found''
               else ServeFile p (Base p))
            else Forbidden ''access denied: file outside output directory''))
   \<and> handleFileDownload cwd allPresent ''/downloads'' ''/downloads-private/key.pem''
       = ServeFile ''/downloads-private/key.pem'' ''key.pem''"
proof -
  have served: "\<forall>p name. handleFileDownload cwd stat outputDir filePath = ServeFile p name \<longrightarrow>
       Abs cwd filePath = Some p \<and> (\<exists>rest. p = absOutputDirOf cwd outputDir @ rest)"
    using handleFileDownload_served [of cwd stat outputDir filePath]
    by (simp add: HasPrefix_iff)
  have guard: "\<forall>p. filePath \<noteq> [] \<and> Abs cwd filePath = Some p \<longrightarrow>
         handleFileDownload cwd stat outputDir filePath =
           (if \<exists>rest. p = absOutputDirOf cwd outputDir @ rest then
              (if stat p = StatNotExist then NotFound ''file not found''
               else ServeFile p (Base p))
            else Forbidden ''access denied: file outside output directory'')"
    using handleFileDownload_guard [of filePath cwd _ stat outputDir]
    by (simp add: HasPrefix_iff)
  have a: "Abs cwd ''/downloads-private/key.pem'' = Some ''/downloads-private/key.pem''"
    by (simp add: Abs_def Clean_def HasPrefix_def)
  have d: "absOutputDirOf cwd ''/downloads'' = ''/downloads''"
    by (simp add: absOutputDirOf_def Abs_def Clean_def HasPrefix_def)
  have pre: "HasPrefix ''/downloads-private/key.pem'' ''/downloads''"
    by (simp add: HasPrefix_def)
  have b: "Base ''/downloads-private/key.pem'' = ''key.pem''"
    by (simp add: Base_def)
  have ne: "''/downloads-private/key.pem'' \<noteq> []" by simp
  have sibling: "handleFileDownload cwd allPresent ''/downloads'' ''/downloads-private/key.pem''
       = ServeFile ''/downloads-private/key.pem'' ''key.pem''"
    using handleFileDownload_guard [OF ne a, of allPresent "''/downloads''"] d pre b
    by (simp add: allPresent_def)
  show ?thesis using served guard sibling by blast
qed

theorem file_download_prefix_guard_witness:
  "''/etc/passwd'' \<noteq> [] \<and> Abs (Some ''/app'') ''/etc/passwd'' = Some ''/etc/passwd''
   \<and> handleFileDownload (Some ''/app'') allPresent ''/downloads'' ''/etc/passwd''
       = Forbidden ''access denied: file outside output directory''
   \<and> Abs (Some ''/app'') ''/downloads/../etc/passwd'' = Some ''/etc/passwd''
   \<and> handleFileDownload (Some ''/app'') allPresent ''/downloads'' ''/downloads/../etc/passwd''
       = Forbidden ''access denied: file outside output directory''
   \<and> Abs (Some ''/app'') ''/downloads/clip.mp4'' = Some ''/downloads/clip.mp4''
   \<and> handleFileDownload (Some ''/app'') allPresent ''/downloads'' ''/downloads/clip.mp4''
       = ServeFile ''/downloads/clip.mp4'' ''clip.mp4''"
proof -
  have d: "absOutputDirOf (Some ''/app'') ''/downloads'' = ''/downloads''"
    by (simp add: absOutputDirOf_def Abs_def Clean_def HasPrefix_def)
  have a1: "Abs (Some ''/app'') ''/etc/passwd'' = Some ''/etc/passwd''"
    by (simp add: Abs_def Clean_def HasPrefix_def)
  have a2: "Abs (Some ''/app'') ''/downloads/../etc/passwd'' = Some ''/etc/passwd''"
    by (simp add: Abs_def Clean_def HasPrefix_def)
  have a3: "Abs (Some ''/app'') ''/downloads/clip.mp4'' = Some ''/downloads/clip.mp4''"
    by (simp add: Abs_def Clean_def HasPrefix_def)
  have n1: "\<not> (\<exists>rest. ''/etc/passwd'' = ''/downloads'' @ rest)" by simp
  have n3: "\<exists>rest. ''/downloads/clip.mp4'' = ''/downloads'' @ rest" by simp
  have b: "Base ''/downloads/clip.mp4'' = ''clip.mp4''" by (simp add: Base_def)
  from file_download_prefix_guard [of "Some ''/app''" allPresent "''/downloads''" "''/etc/passwd''"]
    file_download_prefix_guard [of "Some ''/app''" allPresent "''/downloads''"
      "''/downloads/../etc/passwd''"]
    file_download_prefix_guard [of "Some ''/app''" allPresent "''/downloads''"
      "''/downloads/clip.mp4''"]
  show ?thesis using a1 a2 a3 n1 n3
    by (simp add: d b allPresent_def)
qed

end
